theory Spec2Isabelle
  imports Complex_Main
begin

section \<open>Configuration constants\<close>

text \<open>
  The module \<open>config\<close> is imported by every source file but is not part of the
  sources at hand, so its constants are a parameter of the model. Horizontal
  measures are integers (millimetres); vertical measures are rationals, which
  hold integers and halves of millimetres exactly.
\<close>

record config =
  BRICK_LENGTH :: int
  HEAD_JOINT_LENGTH :: int
  BRICK_HEIGHT :: rat
  BED_JOINT_HEIGHT :: rat

section \<open>Errors\<close>

text \<open>
  The exceptions the modelled code can raise: comparing or adding \<open>None\<close>
  (\<open>TypeError\<close>), indexing an empty list (\<open>IndexError\<close>), dividing by zero
  (\<open>ZeroDivisionError\<close>) and calling an abstract method
  (\<open>NotImplementedError\<close>).
\<close>

datatype error = TypeError | IndexError | ZeroDivisionError | NotImplementedError

section \<open>Bricks (brick.py)\<close>

datatype BrickState = EMPTY | PLACED

text \<open>
  Brick objects are shared: a course holds them, and the \<open>supports\<close> and
  \<open>loads\<close> lists of other bricks refer to them. A brick is therefore named by
  a reference, and the objects live in a store from references to records.
  (The field \<open>uid\<close> is set to \<open>None\<close> by the constructor and never read.)
\<close>

type_synonym ref = nat

record Brick =
  state :: BrickState
  length_mm :: int
  row :: int
  brick_index :: int
  stride_index :: int
  x_start :: "int option"
  x_end :: "int option"
  supports :: "ref list"
  loads :: "ref list"

type_synonym store = "ref \<Rightarrow> Brick"

text \<open>\<open>Brick.__init__\<close>\<close>

definition Brick_init :: "int \<Rightarrow> Brick" where
  "Brick_init len =
     \<lparr>state = EMPTY, length_mm = len, row = - 1, brick_index = - 1, stride_index = - 1,
      x_start = None, x_end = None, supports = [], loads = []\<rparr>"

text \<open>\<open>Brick.place\<close> and the property \<open>Brick.placed\<close>\<close>

definition place :: "store \<Rightarrow> ref \<Rightarrow> store" where
  "place h b = h(b := (h b)\<lparr>state := PLACED\<rparr>)"

definition placed :: "store \<Rightarrow> ref \<Rightarrow> bool" where
  "placed h b = (state (h b) = PLACED)"

section \<open>Courses (course.py)\<close>

text \<open>
  A \<open>Course\<close> is a Python list of bricks with a \<open>width_limit\<close>. (The field
  \<open>_current_span_mm\<close> is set to 0 by the constructor and never read.)
\<close>

record Course =
  bricks :: "ref list"
  width_limit :: int

definition Course_init :: "int \<Rightarrow> Course" where
  "Course_init w = \<lparr>bricks = [], width_limit = w\<rparr>"

definition width_c :: "config \<Rightarrow> store \<Rightarrow> Course \<Rightarrow> int" where
  "width_c cfg h c =
     sum_list (map (\<lambda>b. length_mm (h b)) (bricks c))
       + HEAD_JOINT_LENGTH cfg * (int (length (bricks c)) - 1)"

definition can_fit :: "config \<Rightarrow> store \<Rightarrow> Course \<Rightarrow> ref \<Rightarrow> int option \<Rightarrow> bool" where
  "can_fit cfg h c brick width_arg =
     (let width_required =
            length_mm (h brick) + (if bricks c \<noteq> [] then HEAD_JOINT_LENGTH cfg else 0);
          w = (case width_arg of None \<Rightarrow> width_limit c | Some w' \<Rightarrow> w')
      in width_c cfg h c + width_required \<le> w)"

text \<open>
  \<open>Course.append\<close> mutates the brick and the course; the model returns the
  Boolean result with the new course and store. Reading \<open>self[-1].x_end\<close> of a
  brick that was never positioned adds \<open>None\<close> to an integer, a \<open>TypeError\<close>.
\<close>

definition append_c ::
  "config \<Rightarrow> store \<Rightarrow> Course \<Rightarrow> ref \<Rightarrow> int \<Rightarrow> error + (bool \<times> Course \<times> store)" where
  "append_c cfg h c brick r =
     (if \<not> can_fit cfg h c brick None then Inr (False, c, h)
      else
        (case (if bricks c = [] then Some 0
               else map_option (\<lambda>e. e + HEAD_JOINT_LENGTH cfg) (x_end (h (last (bricks c))))) of
           None \<Rightarrow> Inl TypeError
         | Some xs \<Rightarrow>
             Inr (True,
                  c\<lparr>bricks := bricks c @ [brick]\<rparr>,
                  h(brick := (h brick)\<lparr>x_start := Some xs,
                                       x_end := Some (xs + length_mm (h brick)),
                                       row := r,
                                       brick_index := int (length (bricks c))\<rparr>))))"

section \<open>Walls (wall.py)\<close>

text \<open>
  The wall keeps its measures and its courses, bottom course first. (The bond
  that generated the courses is an external collaborator and is left out.)
\<close>

record Wall =
  width :: int
  height :: rat
  courses :: "Course list"

definition all_bricks :: "Wall \<Rightarrow> ref list" where
  "all_bricks w = concat (map bricks (courses w))"

text \<open>\<open>Wall.complete\<close>\<close>

definition complete_w :: "store \<Rightarrow> Wall \<Rightarrow> bool" where
  "complete_w h w = list_all (\<lambda>c. list_all (placed h) (bricks c)) (courses w)"

text \<open>
  \<open>Wall.assign_support_relations\<close>. The innermost loop appends a support to the
  brick and the brick to the loads of the support.
\<close>

definition link :: "ref \<Rightarrow> ref \<Rightarrow> store \<Rightarrow> store" where
  "link brick s h =
     (let h1 = h(brick := (h brick)\<lparr>supports := supports (h brick) @ [s]\<rparr>)
      in h1(s := (h1 s)\<lparr>loads := loads (h1 s) @ [brick]\<rparr>))"

definition overlaps :: "store \<Rightarrow> int \<Rightarrow> int \<Rightarrow> ref \<Rightarrow> bool" where
  "overlaps h left right b =
     (case x_start (h b) of None \<Rightarrow> False
      | Some bs \<Rightarrow>
          (case x_end (h b) of None \<Rightarrow> False
           | Some be \<Rightarrow> \<not> (be \<le> left \<or> bs \<ge> right)))"

definition assign_brick :: "Course \<Rightarrow> ref \<Rightarrow> store \<Rightarrow> store" where
  "assign_brick below brick h =
     (case x_start (h brick) of None \<Rightarrow> h
      | Some xs \<Rightarrow>
          (case x_end (h brick) of None \<Rightarrow> h
           | Some xe \<Rightarrow>
               (let left = xs + 1; right = xe - 1;
                    sups = filter (overlaps h left right) (bricks below)
                in fold (link brick) sups h)))"

definition assign_course :: "Course \<times> Course \<Rightarrow> store \<Rightarrow> store" where
  "assign_course bc h = fold (assign_brick (fst bc)) (bricks (snd bc)) h"

definition assign_support_relations :: "store \<Rightarrow> Wall \<Rightarrow> store" where
  "assign_support_relations h w =
     (if length (courses w) < 2 then h
      else fold assign_course (zip (courses w) (drop 1 (courses w))) h)"

section \<open>Python slices\<close>

text \<open>\<open>xs[lo:hi]\<close>: a negative index counts from the end, and both are clamped.\<close>

definition py_slice :: "'a list \<Rightarrow> int \<Rightarrow> int \<Rightarrow> 'a list" where
  "py_slice xs lo hi =
     (let n = int (length xs);
          l = (if lo < 0 then max 0 (n + lo) else min lo n);
          u = (if hi < 0 then max 0 (n + hi) else min hi n)
      in take (nat (u - l)) (drop (nat l) xs))"

section \<open>The scheduling contract (algorithm.py)\<close>

text \<open>
  A scheduler holds a reference to its wall. Its state is modelled together with
  the store of the brick objects, which \<open>place_next_brick\<close> and the tagging of
  \<open>next_brick\<close> mutate.
\<close>

record BuildAlgorithm =
  wall :: Wall
  heap :: store

section \<open>The baseline scheduler (algos/brick\_by\_brick.py)\<close>

record BrickByBrick = BuildAlgorithm +
  current_course :: int
  sections :: int

definition BrickByBrick_init :: "Wall \<Rightarrow> store \<Rightarrow> BrickByBrick" where
  "BrickByBrick_init w h =
     \<lparr>wall = w, heap = h, current_course = 0, sections = int (length (courses w))\<rparr>"

definition brick_condition_bbb :: "store \<Rightarrow> ref \<Rightarrow> bool" where
  "brick_condition_bbb h brick =
     (if placed h brick then False
      else if row (h brick) = 0 then True
      else list_all (placed h) (supports (h brick)))"

function next_brick_bbb :: "BrickByBrick \<Rightarrow> ref option \<times> BrickByBrick" where
  "next_brick_bbb s =
     (if current_course s < sections s then
        (let wall_subset = py_slice (courses (wall s)) (current_course s) (current_course s + 1)
         in case find (brick_condition_bbb (heap s)) (concat (map bricks (rev wall_subset))) of
              Some brick \<Rightarrow> (Some brick, s)
            | None \<Rightarrow> next_brick_bbb (s\<lparr>current_course := current_course s + 1\<rparr>))
      else (None, s))"
  by pat_completeness auto
termination
  by (relation "measure (\<lambda>s. nat (sections s - current_course s))") auto

text \<open>\<open>BuildAlgorithm.place_next_brick\<close>, inherited by the baseline scheduler.\<close>

definition place_next_brick_bbb :: "BrickByBrick \<Rightarrow> bool \<times> BrickByBrick" where
  "place_next_brick_bbb s =
     (case next_brick_bbb s of
        (None, s') \<Rightarrow> (False, s')
      | (Some brick, s') \<Rightarrow> (True, s'\<lparr>heap := place (heap s') brick\<rparr>))"

text \<open>
  The baseline scheduler does not override \<open>complete_stride\<close>: the call reaches
  the abstract method, which raises.
\<close>

definition complete_stride_bbb :: "BrickByBrick \<Rightarrow> error + (nat \<times> BrickByBrick)" where
  "complete_stride_bbb s = Inl NotImplementedError"

text \<open>
  The driver of the tests and of the application: call \<open>place_next_brick\<close> until
  it returns \<open>False\<close>, counting the calls that placed a brick. The fuel bounds
  the number of calls; \<open>None\<close> means that the fuel ran out before a call
  returned \<open>False\<close>.
\<close>

fun build_all_bbb :: "nat \<Rightarrow> BrickByBrick \<Rightarrow> (nat \<times> BrickByBrick) option" where
  "build_all_bbb 0 s = None"
| "build_all_bbb (Suc fuel) s =
     (case place_next_brick_bbb s of
        (False, s') \<Rightarrow> Some (0, s')
      | (True, s') \<Rightarrow> map_option (\<lambda>(n, t). (Suc n, t)) (build_all_bbb fuel s'))"

section \<open>Python's true division\<close>

text \<open>
  \<open>a / b\<close> on two integers is a float: the double nearest to the exact
  quotient, a tie going to the even significand. The model keeps the value of
  that double as a rational. Doubles have 53 significant bits; below
  \<open>2 ^ (- 1022)\<close> they are spaced \<open>2 ^ (- 1074)\<close> apart, so a small enough
  quotient becomes 0. The quotients taken in this program have the length of a
  list as numerator and a nonzero integer as denominator; they stay far below
  the largest double, so the overflow of the division is left out.
\<close>

function bit_length :: "int \<Rightarrow> nat" where
  "bit_length n = (if n \<le> 0 then 0 else Suc (bit_length (n div 2)))"
  by pat_completeness auto
termination
  by (relation "measure nat") auto

declare bit_length.simps [simp del]

definition pow2 :: "int \<Rightarrow> rat" where
  "pow2 e = (if 0 \<le> e then 2 ^ nat e else 1 / 2 ^ nat (- e))"

definition round_half_even :: "rat \<Rightarrow> int" where
  "round_half_even q =
     (let f = \<lfloor>q\<rfloor>; d = q - of_int f
      in if d < 1 / 2 then f
         else if 1 / 2 < d then f + 1
         else if even f then f else f + 1)"

text \<open>The exponent \<open>e\<close> with \<open>2 ^ e \<le> q < 2 ^ (e + 1)\<close>, for a positive \<open>q\<close>.\<close>

definition binary_exponent :: "rat \<Rightarrow> int" where
  "binary_exponent q =
     (let (a, b) = quotient_of q;
          e = int (bit_length a) - int (bit_length b)
      in if pow2 e \<le> q then e else e - 1)"

definition to_double :: "rat \<Rightarrow> rat" where
  "to_double q =
     (if q = 0 then 0
      else
        (let a = \<bar>q\<bar>;
             quantum = pow2 (max (binary_exponent a) (- 1022) - 52)
         in sgn q * of_int (round_half_even (a / quantum)) * quantum))"

definition truediv :: "int \<Rightarrow> int \<Rightarrow> error + rat" where
  "truediv a b =
     (if b = 0 then Inl ZeroDivisionError else Inr (to_double (rat_of_int a / rat_of_int b)))"

section \<open>The envelope scheduler (algos/limited\_course\_stride.py)\<close>

datatype Direction = L2R | R2L

record LimitedCourseStride = BuildAlgorithm +
  max_courses :: int
  build_envelope :: "int \<times> rat"
  direction :: Direction
  sections :: int
  current_section :: int
  current_stride :: int
  platform_moves :: int
  current_stride_x_min :: int
  current_stride_y_min :: rat

text \<open>
  \<open>LimitedCourseStride.__init__\<close>. The only failure is the division by
  \<open>max_courses\<close> in \<open>ceil(len(wall.courses) / max_courses)\<close>, which is the
  ceiling of a float.
\<close>

definition LimitedCourseStride_init ::
  "Wall \<Rightarrow> store \<Rightarrow> int \<Rightarrow> int \<times> rat \<Rightarrow> error + LimitedCourseStride" where
  "LimitedCourseStride_init w h mc env =
     (case truediv (int (length (courses w))) mc of
        Inl e \<Rightarrow> Inl e
      | Inr q \<Rightarrow>
          Inr \<lparr>wall = w, heap = h, max_courses = mc, build_envelope = env, direction = L2R,
               sections = \<lceil>q\<rceil>,
               current_section = 0, current_stride = 0, platform_moves = 0,
               current_stride_x_min = 0, current_stride_y_min = 0\<rparr>)"

definition get_current_wall_subset :: "LimitedCourseStride \<Rightarrow> Course list" where
  "get_current_wall_subset s =
     rev (py_slice (courses (wall s)) (current_section s * max_courses s)
            ((current_section s + 1) * max_courses s))"

definition get_directional_course :: "LimitedCourseStride \<Rightarrow> Course \<Rightarrow> ref list" where
  "get_directional_course s course =
     (if direction s = L2R then bricks course else rev (bricks course))"

text \<open>
  \<open>brick_condition\<close>. A chained comparison with \<open>None\<close> raises; the second
  link of a chain is only evaluated when the first holds.
\<close>

definition brick_condition_lcs :: "LimitedCourseStride \<Rightarrow> ref \<Rightarrow> error + bool" where
  "brick_condition_lcs s brick =
     (if placed (heap s) brick then Inr False
      else
        (let x_max = current_stride_x_min s + fst (build_envelope s) in
         case x_start (heap s brick) of
           None \<Rightarrow> Inl TypeError
         | Some xs \<Rightarrow>
             if \<not> (current_stride_x_min s \<le> xs \<and> xs < x_max) then Inr False
             else
               (case x_end (heap s brick) of
                  None \<Rightarrow> Inl TypeError
                | Some xe \<Rightarrow>
                    if \<not> (current_stride_x_min s < xe \<and> xe \<le> x_max) then Inr False
                    else if row (heap s brick) = 0 then Inr True
                    else Inr (list_all (placed (heap s)) (supports (heap s brick))))))"

text \<open>
  The nested \<open>for\<close> loops of \<open>next_brick\<close>: the first brick, in scan order, that
  satisfies \<open>brick_condition\<close>.
\<close>

fun scan :: "LimitedCourseStride \<Rightarrow> ref list \<Rightarrow> error + ref option" where
  "scan s [] = Inr None"
| "scan s (brick # rest) =
     (case brick_condition_lcs s brick of
        Inl e \<Rightarrow> Inl e
      | Inr True \<Rightarrow> Inr (Some brick)
      | Inr False \<Rightarrow> scan s rest)"

text \<open>
  The local quantities of \<open>step_vertically\<close>, read in the state whose
  \<open>current_section\<close> has already been incremented.
\<close>

definition course_height :: "config \<Rightarrow> rat" where
  "course_height cfg = BRICK_HEIGHT cfg + BED_JOINT_HEIGHT cfg"

definition section_height :: "config \<Rightarrow> LimitedCourseStride \<Rightarrow> rat" where
  "section_height cfg s = of_int (max_courses s) * course_height cfg"

definition reachable_height :: "LimitedCourseStride \<Rightarrow> rat" where
  "reachable_height s = current_stride_y_min s + snd (build_envelope s)"

definition required_height :: "config \<Rightarrow> LimitedCourseStride \<Rightarrow> rat" where
  "required_height cfg s =
     min (of_int (current_section s + 1) * section_height cfg s) (height (wall s))"

definition step_vertically ::
  "config \<Rightarrow> LimitedCourseStride \<Rightarrow> bool \<times> LimitedCourseStride" where
  "step_vertically cfg s0 =
     (let s = s0\<lparr>current_section := current_section s0 + 1\<rparr> in
      if current_section s \<ge> sections s then (False, s)
      else
        (let s1 = (if required_height cfg s > reachable_height s
                   then s\<lparr>current_stride_y_min :=
                            current_stride_y_min s + (required_height cfg s - section_height cfg s),
                          platform_moves := platform_moves s + 1\<rparr>
                   else s)
         in if direction s1 = R2L
            then (True, s1\<lparr>direction := L2R, current_stride_x_min := 0\<rparr>)
            else (True, s1\<lparr>direction := R2L,
                            current_stride_x_min :=
                              max 0 (width (wall s1) - fst (build_envelope s1))\<rparr>)))"

text \<open>
  \<open>step_horizontally\<close>. Taking \<open>max\<close> or \<open>min\<close> over positions that include
  \<open>None\<close>, or adding the joint to \<open>None\<close>, raises.
\<close>

definition step_horizontally ::
  "config \<Rightarrow> LimitedCourseStride \<Rightarrow> Course \<Rightarrow> error + (bool \<times> LimitedCourseStride)" where
  "step_horizontally cfg s top_course =
     (let placed_bs = filter (placed (heap s)) (bricks top_course) in
      if placed_bs = [] then Inr (False, s)
      else
        (let envelope_width = fst (build_envelope s);
             max_left_origin = max 0 (width (wall s) - envelope_width)
         in case (if direction s = L2R
                  then (case those (map (\<lambda>b. x_end (heap s b)) placed_bs) of
                          None \<Rightarrow> Inl TypeError
                        | Some es \<Rightarrow>
                            (let candidate = Max (set es) + HEAD_JOINT_LENGTH cfg
                             in Inr (min max_left_origin (max 0 candidate))))
                  else (case those (map (\<lambda>b. x_start (heap s b)) placed_bs) of
                          None \<Rightarrow> Inl TypeError
                        | Some ss \<Rightarrow>
                            (let right_edge_target = Min (set ss) - HEAD_JOINT_LENGTH cfg
                             in Inr (min (max 0 (right_edge_target - envelope_width))
                                         max_left_origin)))) of
              Inl e \<Rightarrow> Inl e
            | Inr new_x_min \<Rightarrow>
                if new_x_min \<noteq> current_stride_x_min s
                then Inr (True, s\<lparr>current_stride_x_min := new_x_min,
                                    current_stride := current_stride s + 1\<rparr>)
                else Inr (True, s)))"

text \<open>The assignment \<open>brick.stride_index = self.current_stride\<close>.\<close>

definition tag :: "LimitedCourseStride \<Rightarrow> ref \<Rightarrow> LimitedCourseStride" where
  "tag s brick = s\<lparr>heap := (heap s)(brick := (heap s brick)\<lparr>stride_index := current_stride s\<rparr>)\<rparr>"

text \<open>
  \<open>next_brick\<close>. The \<open>while\<close> loop need not end, so the result is an option:
  \<open>None\<close> is a run that never returns, \<open>Some (Inl e)\<close> one that raises and
  \<open>Some (Inr (r, s'))\<close> one that returns \<open>r\<close> in the state \<open>s'\<close>. An exception
  ends the run: the state it leaves behind is not modelled.
\<close>

partial_function (option) next_brick_lcs ::
  "config \<Rightarrow> LimitedCourseStride \<Rightarrow> (error + (ref option \<times> LimitedCourseStride)) option" where
  "next_brick_lcs cfg s =
     (if current_section s < sections s then
        (let wall_subset = get_current_wall_subset s in
         case scan s (concat (map (get_directional_course s) (rev wall_subset))) of
           Inl e \<Rightarrow> Some (Inl e)
         | Inr (Some brick) \<Rightarrow> Some (Inr (Some brick, tag s brick))
         | Inr None \<Rightarrow>
             (case wall_subset of
                [] \<Rightarrow> Some (Inl IndexError)
              | top_course # _ \<Rightarrow>
                  if list_all (placed (heap s)) (bricks top_course) then
                    (case step_vertically cfg s of
                       (moved, s') \<Rightarrow>
                         if moved then next_brick_lcs cfg s' else Some (Inr (None, s')))
                  else
                    (case step_horizontally cfg s top_course of
                       Inl e \<Rightarrow> Some (Inl e)
                     | Inr (moved, s') \<Rightarrow>
                         if \<not> moved then Some (Inr (None, s')) else next_brick_lcs cfg s')))
      else Some (Inr (None, s)))"

declare next_brick_lcs.simps [code]


definition place_next_brick_lcs ::
  "config \<Rightarrow> LimitedCourseStride \<Rightarrow> (error + (bool \<times> LimitedCourseStride)) option" where
  "place_next_brick_lcs cfg s =
     (case next_brick_lcs cfg s of
        None \<Rightarrow> None
      | Some (Inl e) \<Rightarrow> Some (Inl e)
      | Some (Inr (None, s')) \<Rightarrow> Some (Inr (False, s'))
      | Some (Inr (Some brick, s')) \<Rightarrow> Some (Inr (True, s'\<lparr>heap := place (heap s') brick\<rparr>)))"

text \<open>
  \<open>complete_stride\<close>: the loop carries the stride observed at the start and the
  number of bricks placed so far.
\<close>

partial_function (option) complete_stride_loop ::
  "config \<Rightarrow> int \<Rightarrow> nat \<Rightarrow> LimitedCourseStride \<Rightarrow> (error + (nat \<times> LimitedCourseStride)) option" where
  "complete_stride_loop cfg start_stride n s =
     Option.bind (next_brick_lcs cfg s) (\<lambda>r.
       case r of
         Inl e \<Rightarrow> Some (Inl e)
       | Inr (None, s') \<Rightarrow> Some (Inr (n, s'))
       | Inr (Some brick, s') \<Rightarrow>
           if stride_index (heap s' brick) \<noteq> start_stride then Some (Inr (n, s'))
           else complete_stride_loop cfg start_stride (n + 1) (s'\<lparr>heap := place (heap s') brick\<rparr>))"

declare complete_stride_loop.simps [code]


definition complete_stride_lcs ::
  "config \<Rightarrow> LimitedCourseStride \<Rightarrow> (error + (nat \<times> LimitedCourseStride)) option" where
  "complete_stride_lcs cfg s = complete_stride_loop cfg (current_stride s) 0 s"




section \<open>Notions used in the properties\<close>

subsection \<open>Reachable scheduler states\<close>

text \<open>
  A driver may call \<open>next_brick\<close>, \<open>place_next_brick\<close> and \<open>complete_stride\<close>
  in any order. One step of a run is one such call that returns; the states of a
  run are those reached by finitely many steps.
\<close>

inductive bbb_step :: "BrickByBrick \<Rightarrow> BrickByBrick \<Rightarrow> bool" where
  bbb_next: "next_brick_bbb s = (r, s') \<Longrightarrow> bbb_step s s'"
| bbb_place: "place_next_brick_bbb s = (ok, s') \<Longrightarrow> bbb_step s s'"
| bbb_stride: "complete_stride_bbb s = Inr (n, s') \<Longrightarrow> bbb_step s s'"

inductive lcs_step :: "config \<Rightarrow> LimitedCourseStride \<Rightarrow> LimitedCourseStride \<Rightarrow> bool"
  for cfg :: config where
  lcs_next: "next_brick_lcs cfg s = Some (Inr (r, s')) \<Longrightarrow> lcs_step cfg s s'"
| lcs_place: "place_next_brick_lcs cfg s = Some (Inr (ok, s')) \<Longrightarrow> lcs_step cfg s s'"
| lcs_stride: "complete_stride_lcs cfg s = Some (Inr (n, s')) \<Longrightarrow> lcs_step cfg s s'"

subsection \<open>Dependencies and the window\<close>

text \<open>
  Dependency soundness of a store: every placed brick of the wall above the
  ground row has all its supports placed.
\<close>

definition deps_ok :: "store \<Rightarrow> Wall \<Rightarrow> bool" where
  "deps_ok h w =
     list_all (\<lambda>b. placed h b \<and> row (h b) > 0 \<longrightarrow> list_all (placed h) (supports (h b)))
       (all_bricks w)"

text \<open>
  The two window tests of \<open>brick_condition\<close>: the brick is positioned and lies
  fully inside the current horizontal window.
\<close>

definition in_window :: "LimitedCourseStride \<Rightarrow> ref \<Rightarrow> bool" where
  "in_window s b =
     (case x_start (heap s b) of None \<Rightarrow> False
      | Some xs \<Rightarrow>
          (case x_end (heap s b) of None \<Rightarrow> False
           | Some xe \<Rightarrow>
               current_stride_x_min s \<le> xs
               \<and> xs < current_stride_x_min s + fst (build_envelope s)
               \<and> current_stride_x_min s < xe
               \<and> xe \<le> current_stride_x_min s + fst (build_envelope s)))"

text \<open>
  The supports of every brick lie in the course immediately below it, and the
  bricks of the bottom course have none.
\<close>

definition supports_below :: "store \<Rightarrow> Wall \<Rightarrow> bool" where
  "supports_below h w =
     (\<forall>i < length (courses w). \<forall>b \<in> set (bricks (courses w ! i)).
        set (supports (h b)) \<subseteq> (if i = 0 then {} else set (bricks (courses w ! (i - 1)))))"

text \<open>The number of bricks of the wall that are not placed.\<close>

definition unplaced :: "store \<Rightarrow> Wall \<Rightarrow> nat" where
  "unplaced h w = length (filter (\<lambda>b. \<not> placed h b) (all_bricks w))"

subsection \<open>Invariants and postconditions\<close>

text \<open>
  The invariant of the baseline scheduler on a wall with supports below: all
  courses under the current one are fully placed.
\<close>

definition bbb_inv :: "Wall \<Rightarrow> BrickByBrick \<Rightarrow> bool" where
  "bbb_inv w s =
     (wall s = w \<and> BrickByBrick.sections s = int (length (courses w)) \<and> 0 \<le> current_course s
      \<and> supports_below (heap s) w
      \<and> (\<forall>i < length (courses w). int i < current_course s \<longrightarrow>
            list_all (placed (heap s)) (bricks (courses w ! i))))"

text \<open>The order in which \<open>next_brick\<close> scans the bricks of the current section.\<close>

abbreviation scan_order :: "LimitedCourseStride \<Rightarrow> ref list" where
  "scan_order s \<equiv> concat (map (get_directional_course s) (rev (get_current_wall_subset s)))"

text \<open>What the envelope scheduler never changes or only increases.\<close>

definition lcs_frame :: "LimitedCourseStride \<Rightarrow> LimitedCourseStride \<Rightarrow> bool" where
  "lcs_frame s s' =
     (wall s' = wall s \<and> max_courses s' = max_courses s \<and> build_envelope s' = build_envelope s
      \<and> sections s' = sections s \<and> current_section s \<le> current_section s'
      \<and> current_stride s \<le> current_stride s' \<and> platform_moves s \<le> platform_moves s')"

text \<open>
  A store grows when bricks are only tagged or placed, and placed bricks are
  left as they are.
\<close>

definition heap_grows :: "store \<Rightarrow> store \<Rightarrow> bool" where
  "heap_grows h h' =
     (\<forall>b. (\<exists>k st. h' b = (h b)\<lparr>state := st, stride_index := k\<rparr>)
          \<and> (placed h b \<longrightarrow> h' b = h b))"

text \<open>
  What a returning call of \<open>next_brick\<close> guarantees: the same call on the new
  state returns the same result without changing the state, and the store is
  the old one up to the tag of the returned brick, which is a candidate.
\<close>

definition next_brick_post ::
  "config \<Rightarrow> LimitedCourseStride \<Rightarrow> ref option \<Rightarrow> LimitedCourseStride \<Rightarrow> bool" where
  "next_brick_post cfg s r s' =
     (lcs_frame s s'
      \<and> next_brick_lcs cfg s' = Some (Inr (r, s'))
      \<and> (case r of
           None \<Rightarrow> heap s' = heap s
         | Some b \<Rightarrow>
             heap s' = (heap s)(b := (heap s b)\<lparr>stride_index := current_stride s'\<rparr>)
             \<and> b \<in> set (all_bricks (wall s'))
             \<and> brick_condition_lcs s' b = Inr True))"

text \<open>
  What a returning run of the loop of \<open>complete_stride\<close> guarantees, from a
  count \<open>n\<close> and a state \<open>s\<close> to the result \<open>m\<close> and the state \<open>s'\<close>.
\<close>

definition stride_post ::
  "config \<Rightarrow> int \<Rightarrow> nat \<Rightarrow> LimitedCourseStride \<Rightarrow> nat \<Rightarrow> LimitedCourseStride \<Rightarrow> bool" where
  "stride_post cfg start n s m s' =
     (lcs_frame s s' \<and> heap_grows (heap s) (heap s')
      \<and> m = n + card {b \<in> set (all_bricks (wall s)). placed (heap s') b \<and> \<not> placed (heap s) b}
      \<and> (\<forall>b. placed (heap s') b \<and> \<not> placed (heap s) b \<longrightarrow>
             b \<in> set (all_bricks (wall s)) \<and> stride_index (heap s' b) = start)
      \<and> (deps_ok (heap s) (wall s) \<longrightarrow> deps_ok (heap s') (wall s'))
      \<and> (\<exists>r. next_brick_lcs cfg s' = Some (Inr (r, s'))
             \<and> (\<forall>c. r = Some c \<longrightarrow> stride_index (heap s' c) \<noteq> start)))"

section \<open>Example inputs\<close>

text \<open>
  Concrete inputs on which the properties below are exercised: a configuration
  in millimetres, a store of fresh full bricks, a wall without courses, and a
  wall of two courses of two full bricks each, laid out as \<open>Course.append\<close>
  positions them, with the envelope scheduler constructed on it for sections
  of two courses and an envelope of 300 by 1300.
\<close>

definition cfg_mm :: config where
  "cfg_mm = \<lparr>BRICK_LENGTH = 210, HEAD_JOINT_LENGTH = 10, BRICK_HEIGHT = 50, BED_JOINT_HEIGHT = 25 / 2\<rparr>"

definition fresh_store :: store where
  "fresh_store = (\<lambda>_. Brick_init 210)"

definition empty_wall :: Wall where
  "empty_wall = \<lparr>width = 0, height = 0, courses = []\<rparr>"

definition positioned :: "int \<Rightarrow> int \<Rightarrow> int \<Rightarrow> Brick" where
  "positioned r i x =
     (Brick_init 210)\<lparr>row := r, brick_index := i, x_start := Some x, x_end := Some (x + 210)\<rparr>"

definition small_store0 :: store where
  "small_store0 =
     (\<lambda>_. Brick_init 210)(0 := positioned 0 0 0, 1 := positioned 0 1 220,
                            2 := positioned 1 0 0, 3 := positioned 1 1 220)"

definition small_wall :: Wall where
  "small_wall =
     \<lparr>width = 430, height = 225 / 2,
      courses = [\<lparr>bricks = [0, 1], width_limit = 430\<rparr>, \<lparr>bricks = [2, 3], width_limit = 430\<rparr>]\<rparr>"

definition small_store :: store where
  "small_store = assign_support_relations small_store0 small_wall"

definition small_lcs :: LimitedCourseStride where
  "small_lcs =
     \<lparr>wall = small_wall, heap = small_store, max_courses = 2, build_envelope = (300, 1300),
      direction = L2R, sections = 1, current_section = 0, current_stride = 0,
      platform_moves = 0, current_stride_x_min = 0, current_stride_y_min = 0\<rparr>"

text \<open>
  A stretcher-bond wall 430 wide and two courses high: two full bricks below,
  and a half, a full and a half brick above. The envelope scheduler is
  constructed on it for sections of two courses and an envelope of 300 by
  1300. The states \<open>hang_s1\<close> and \<open>hang_s2\<close> are those after placing the first
  and the second brick it returns, and \<open>hang_s3\<close> is \<open>hang_s2\<close> with the window
  slid to 110 in the second stride.
\<close>

definition half_positioned :: "int \<Rightarrow> int \<Rightarrow> int \<Rightarrow> Brick" where
  "half_positioned r i x =
     (Brick_init 100)\<lparr>row := r, brick_index := i, x_start := Some x, x_end := Some (x + 100)\<rparr>"

definition hang_store0 :: store where
  "hang_store0 =
     (\<lambda>_. Brick_init 210)(0 := positioned 0 0 0, 1 := positioned 0 1 220,
                            2 := half_positioned 1 0 0, 3 := positioned 1 1 110,
                            4 := half_positioned 1 2 330)"

definition hang_wall :: Wall where
  "hang_wall =
     \<lparr>width = 430, height = 225 / 2,
      courses = [\<lparr>bricks = [0, 1], width_limit = 430\<rparr>,
                 \<lparr>bricks = [2, 3, 4], width_limit = 430\<rparr>]\<rparr>"

definition hang_store :: store where
  "hang_store = assign_support_relations hang_store0 hang_wall"

definition hang_lcs :: LimitedCourseStride where
  "hang_lcs =
     \<lparr>wall = hang_wall, heap = hang_store, max_courses = 2, build_envelope = (300, 1300),
      direction = L2R, sections = 1, current_section = 0, current_stride = 0,
      platform_moves = 0, current_stride_x_min = 0, current_stride_y_min = 0\<rparr>"

definition hang_s1 :: LimitedCourseStride where
  "hang_s1 = (tag hang_lcs 0)\<lparr>heap := place (heap (tag hang_lcs 0)) 0\<rparr>"

definition hang_s2 :: LimitedCourseStride where
  "hang_s2 = (tag hang_s1 2)\<lparr>heap := place (heap (tag hang_s1 2)) 2\<rparr>"

definition hang_s3 :: LimitedCourseStride where
  "hang_s3 = hang_s2\<lparr>current_stride_x_min := 110, current_stride := 1\<rparr>"

text \<open>
  A wall of three courses of one full brick each, 175 high, with the envelope
  scheduler constructed on it for sections of one course and an envelope of
  800 by 100.
\<close>

definition tower_store0 :: store where
  "tower_store0 =
     (\<lambda>_. Brick_init 210)(0 := positioned 0 0 0, 1 := positioned 1 0 0, 2 := positioned 2 0 0)"

definition tower_wall :: Wall where
  "tower_wall =
     \<lparr>width = 210, height = 175,
      courses = [\<lparr>bricks = [0], width_limit = 210\<rparr>, \<lparr>bricks = [1], width_limit = 210\<rparr>,
                 \<lparr>bricks = [2], width_limit = 210\<rparr>]\<rparr>"

definition tower_store :: store where
  "tower_store = assign_support_relations tower_store0 tower_wall"

definition tower_lcs :: LimitedCourseStride where
  "tower_lcs =
     \<lparr>wall = tower_wall, heap = tower_store, max_courses = 1, build_envelope = (800, 100),
      direction = L2R, sections = 3, current_section = 0, current_stride = 0,
      platform_moves = 0, current_stride_x_min = 0, current_stride_y_min = 0\<rparr>"

section \<open>Lemmas: the baseline scheduler\<close>

declare next_brick_bbb.simps [simp del]

lemma set_py_slice: "set (py_slice xs lo hi) \<subseteq> set xs"
  unfolding py_slice_def Let_def
  by (meson set_take_subset set_drop_subset subset_trans)

lemma py_slice_single:
  "0 \<le> i \<Longrightarrow> i < int (length xs) \<Longrightarrow> py_slice xs i (i + 1) = [xs ! nat i]"
  unfolding py_slice_def Let_def
  by (simp add: min_def take_Suc_conv_app_nth hd_drop_conv_nth take_Suc)

lemma find_in_set: "find P xs = Some x \<Longrightarrow> x \<in> set xs \<and> P x"
  by (induction xs) (auto split: if_splits)

lemma next_brick_bbb_frame:
  "next_brick_bbb s = (r, s') \<Longrightarrow>
     heap s' = heap s \<and> wall s' = wall s \<and> BrickByBrick.sections s' = BrickByBrick.sections s
     \<and> current_course s \<le> current_course s'"
proof (induction s rule: next_brick_bbb.induct)
  case (1 s)
  show ?case
  proof (cases "current_course s < BrickByBrick.sections s")
    case False
    with "1.prems" show ?thesis by (simp add: next_brick_bbb.simps)
  next
    case True
    show ?thesis
    proof (cases "find (brick_condition_bbb (heap s))
        (concat (map bricks (rev (py_slice (courses (wall s)) (current_course s) (current_course s + 1)))))")
      case None
      with True "1.prems" have
        "next_brick_bbb (s\<lparr>current_course := current_course s + 1\<rparr>) = (r, s')"
        by (simp add: next_brick_bbb.simps [of s])
      from "1.IH" [OF True refl None this] show ?thesis by simp
    next
      case (Some b)
      with True "1.prems" show ?thesis by (simp add: next_brick_bbb.simps [of s])
    qed
  qed
qed

lemma next_brick_bbb_Some:
  "next_brick_bbb s = (Some b, s') \<Longrightarrow>
     brick_condition_bbb (heap s') b \<and> b \<in> set (all_bricks (wall s'))
     \<and> next_brick_bbb s' = (Some b, s')"
proof (induction s rule: next_brick_bbb.induct)
  case (1 s)
  show ?case
  proof (cases "current_course s < BrickByBrick.sections s")
    case False
    with "1.prems" show ?thesis by (simp add: next_brick_bbb.simps)
  next
    case True
    let ?sub = "py_slice (courses (wall s)) (current_course s) (current_course s + 1)"
    show ?thesis
    proof (cases "find (brick_condition_bbb (heap s)) (concat (map bricks (rev ?sub)))")
      case None
      with True "1.prems" have
        "next_brick_bbb (s\<lparr>current_course := current_course s + 1\<rparr>) = (Some b, s')"
        by (simp add: next_brick_bbb.simps [of s])
      from "1.IH" [OF True refl None this] show ?thesis .
    next
      case (Some b')
      with True "1.prems" have eq: "b' = b" "s' = s"
        by (simp_all add: next_brick_bbb.simps [of s])
      from Some eq have "b \<in> set (concat (map bricks (rev ?sub)))" "brick_condition_bbb (heap s) b"
        using find_in_set by fastforce+
      moreover have "set (concat (map bricks (rev ?sub))) \<subseteq> set (all_bricks (wall s))"
        using set_py_slice [of "courses (wall s)"] by (auto simp: all_bricks_def)
      ultimately show ?thesis using eq "1.prems" by auto
    qed
  qed
qed

subsection \<open>The support graph built by \<open>assign_support_relations\<close>\<close>

lemma link_supports:
  "supports (link brick s h r) = (if r = brick then supports (h r) @ [s] else supports (h r))"
  by (simp add: link_def Let_def)

lemma link_state: "state (link brick s h r) = state (h r)"
  by (simp add: link_def Let_def)

lemma fold_link_supports:
  "supports (fold (link brick) sups h r) = (if r = brick then supports (h r) @ sups else supports (h r))"
  by (induction sups arbitrary: h) (simp_all add: link_supports)

lemma fold_link_state: "state (fold (link brick) sups h r) = state (h r)"
  by (induction sups arbitrary: h) (simp_all add: link_state)

lemma assign_brick_supports:
  "set (supports (assign_brick below brick h r))
     \<subseteq> set (supports (h r)) \<union> (if r = brick then set (bricks below) else {})"
  by (auto simp: assign_brick_def Let_def fold_link_supports split: option.splits)

lemma assign_brick_state: "state (assign_brick below brick h r) = state (h r)"
  by (simp add: assign_brick_def Let_def fold_link_state split: option.splits)

lemma fold_assign_brick_supports:
  "set (supports (fold (assign_brick below) bs h r))
     \<subseteq> set (supports (h r)) \<union> (if r \<in> set bs then set (bricks below) else {})"
proof (induction bs arbitrary: h)
  case Nil
  show ?case by simp
next
  case (Cons b bs)
  have "set (supports (fold (assign_brick below) bs (assign_brick below b h) r))
      \<subseteq> set (supports (assign_brick below b h r)) \<union> (if r \<in> set bs then set (bricks below) else {})"
    by (rule Cons.IH)
  with assign_brick_supports [of below b h r] show ?case
    by (auto split: if_splits)
qed

lemma fold_assign_brick_state: "state (fold (assign_brick below) bs h r) = state (h r)"
  by (induction bs arbitrary: h) (simp_all add: assign_brick_state)

lemma assign_course_supports:
  "set (supports (assign_course bc h r))
     \<subseteq> set (supports (h r)) \<union> (if r \<in> set (bricks (snd bc)) then set (bricks (fst bc)) else {})"
  unfolding assign_course_def by (rule fold_assign_brick_supports)

lemma assign_course_state: "state (assign_course bc h r) = state (h r)"
  by (simp add: assign_course_def fold_assign_brick_state)

lemma fold_assign_course_supports:
  "set (supports (fold assign_course pairs h r))
     \<subseteq> set (supports (h r))
         \<union> (\<Union>bc \<in> set pairs. if r \<in> set (bricks (snd bc)) then set (bricks (fst bc)) else {})"
proof (induction pairs arbitrary: h)
  case Nil
  show ?case by simp
next
  case (Cons p ps)
  have "set (supports (fold assign_course ps (assign_course p h) r))
      \<subseteq> set (supports (assign_course p h r))
         \<union> (\<Union>bc \<in> set ps. if r \<in> set (bricks (snd bc)) then set (bricks (fst bc)) else {})"
    by (rule Cons.IH)
  with assign_course_supports [of p h r] show ?case
    by (auto split: if_splits)
qed

lemma fold_assign_course_state: "state (fold assign_course pairs h r) = state (h r)"
  by (induction pairs arbitrary: h) (simp_all add: assign_course_state)

lemma assign_support_relations_state:
  "state (assign_support_relations h w r) = state (h r)"
  by (simp add: assign_support_relations_def fold_assign_course_state)

lemma assign_support_relations_placed:
  "placed (assign_support_relations h w) r = placed h r"
  by (simp add: placed_def assign_support_relations_state)

lemma assign_support_relations_supports:
  assumes "x \<in> set (supports (assign_support_relations h w r))"
  shows "x \<in> set (supports (h r))
    \<or> (\<exists>i. Suc i < length (courses w) \<and> r \<in> set (bricks (courses w ! Suc i))
            \<and> x \<in> set (bricks (courses w ! i)))"
proof (cases "length (courses w) < 2")
  case True
  with assms show ?thesis by (simp add: assign_support_relations_def)
next
  case False
  with assms have "x \<in> set (supports (fold assign_course (zip (courses w) (drop 1 (courses w))) h r))"
    by (simp add: assign_support_relations_def)
  with fold_assign_course_supports [of "zip (courses w) (drop 1 (courses w))" h r]
  consider "x \<in> set (supports (h r))"
    | bc where "bc \<in> set (zip (courses w) (drop 1 (courses w)))"
        "r \<in> set (bricks (snd bc))" "x \<in> set (bricks (fst bc))"
    by (auto split: if_splits)
  then show ?thesis
  proof cases
    case 1
    then show ?thesis by simp
  next
    case 2
    from 2(1) obtain i where "i < length (courses w)" "i < length (drop 1 (courses w))"
      "fst bc = courses w ! i" "snd bc = drop 1 (courses w) ! i"
      by (auto simp: in_set_zip)
    with 2 show ?thesis by (intro disjI2 exI [of _ i]) auto
  qed
qed

lemma distinct_concat_nth_eq:
  "distinct (concat xss) \<Longrightarrow> i < length xss \<Longrightarrow> j < length xss \<Longrightarrow>
     x \<in> set (xss ! i) \<Longrightarrow> x \<in> set (xss ! j) \<Longrightarrow> i = j"
proof (induction xss arbitrary: i j)
  case Nil
  then show ?case by simp
next
  case (Cons xs xss)
  show ?case
  proof (cases i)
    case 0
    show ?thesis
    proof (cases j)
      case 0
      with \<open>i = 0\<close> show ?thesis by simp
    next
      case (Suc j')
      with Cons.prems 0 have "x \<in> set xs" "x \<in> set (concat xss)" by auto
      with Cons.prems(1) show ?thesis by auto
    qed
  next
    case (Suc i')
    show ?thesis
    proof (cases j)
      case 0
      with Cons.prems Suc have "x \<in> set xs" "x \<in> set (concat xss)" by auto
      with Cons.prems(1) show ?thesis by auto
    next
      case (Suc j')
      with Cons.prems \<open>i = Suc i'\<close> have "i' = j'"
        by (intro Cons.IH) auto
      with Suc \<open>i = Suc i'\<close> show ?thesis by simp
    qed
  qed
qed

lemma assign_support_relations_below:
  assumes d: "distinct (all_bricks w)"
    and e: "\<forall>b \<in> set (all_bricks w). supports (h b) = []"
  shows "supports_below (assign_support_relations h w) w"
  unfolding supports_below_def
proof (intro allI impI ballI subsetI)
  fix i b x
  assume i: "i < length (courses w)" and b: "b \<in> set (bricks (courses w ! i))"
    and x: "x \<in> set (supports (assign_support_relations h w b))"
  from i b have "b \<in> set (all_bricks w)" by (auto simp: all_bricks_def)
  with e have "supports (h b) = []" by simp
  with assign_support_relations_supports [OF x] obtain k where
    k: "Suc k < length (courses w)" "b \<in> set (bricks (courses w ! Suc k))"
      "x \<in> set (bricks (courses w ! k))"
    by auto
  have "i = Suc k"
    using distinct_concat_nth_eq [of "map bricks (courses w)" i "Suc k" b] d i b k
    by (simp add: all_bricks_def)
  with k show "x \<in> (if i = 0 then {} else set (bricks (courses w ! (i - 1))))" by simp
qed

lemma place_supports: "supports (place h b r) = supports (h r)"
  by (simp add: place_def)

lemma placed_place: "placed (place h b) r = (r = b \<or> placed h r)"
  by (simp add: place_def placed_def)

lemma supports_below_place: "supports_below h w \<Longrightarrow> supports_below (place h b) w"
  by (simp add: supports_below_def place_supports)

lemma filter_unplaced_place:
  "distinct xs \<Longrightarrow> b \<in> set xs \<Longrightarrow> \<not> placed h b \<Longrightarrow>
     Suc (length (filter (\<lambda>r. \<not> placed (place h b) r) xs)) = length (filter (\<lambda>r. \<not> placed h r) xs)"
proof (induction xs)
  case Nil
  then show ?case by simp
next
  case (Cons x xs)
  show ?case
  proof (cases "x = b")
    case True
    with Cons.prems have "b \<notin> set xs" by simp
    then have "filter (\<lambda>r. \<not> placed (place h b) r) xs = filter (\<lambda>r. \<not> placed h r) xs"
      by (intro filter_cong) (auto simp: placed_place)
    with True Cons.prems show ?thesis by (simp add: placed_place)
  next
    case False
    with Cons show ?thesis by (simp add: placed_place)
  qed
qed

lemma unplaced_place:
  "distinct (all_bricks w) \<Longrightarrow> b \<in> set (all_bricks w) \<Longrightarrow> \<not> placed h b \<Longrightarrow>
     unplaced h w = Suc (unplaced (place h b) w)"
  by (simp add: unplaced_def filter_unplaced_place)

lemma unplaced_0_complete: "complete_w h w \<Longrightarrow> unplaced h w = 0"
  by (auto simp: unplaced_def complete_w_def all_bricks_def list_all_iff filter_empty_conv)

lemma bbb_inv_course_placed:
  assumes inv: "bbb_inv w s" and lt: "current_course s < BrickByBrick.sections s"
    and none: "find (brick_condition_bbb (heap s))
        (concat (map bricks (rev (py_slice (courses w) (current_course s) (current_course s + 1))))) = None"
  shows "list_all (placed (heap s)) (bricks (courses w ! nat (current_course s)))"
proof -
  let ?c = "nat (current_course s)"
  from inv lt have c: "0 \<le> current_course s" "current_course s < int (length (courses w))"
    by (simp_all add: bbb_inv_def)
  then have sl: "py_slice (courses w) (current_course s) (current_course s + 1) = [courses w ! ?c]"
    by (rule py_slice_single)
  from c have clt: "?c < length (courses w)" by simp
  have "placed (heap s) b" if b: "b \<in> set (bricks (courses w ! ?c))" for b
  proof (rule ccontr)
    assume np: "\<not> placed (heap s) b"
    from none sl b have nc: "\<not> brick_condition_bbb (heap s) b"
      by (simp add: find_None_iff)
    from inv have "supports_below (heap s) w" by (simp add: bbb_inv_def)
    with clt b have sub: "set (supports (heap s b))
        \<subseteq> (if ?c = 0 then {} else set (bricks (courses w ! (?c - 1))))"
      unfolding supports_below_def by blast
    have "list_all (placed (heap s)) (supports (heap s b))"
    proof (cases "?c = 0")
      case True
      with sub show ?thesis by simp
    next
      case False
      then have "int (?c - 1) < current_course s" "?c - 1 < length (courses w)"
        using clt by simp_all
      with inv have "list_all (placed (heap s)) (bricks (courses w ! (?c - 1)))"
        by (simp add: bbb_inv_def)
      with sub False show ?thesis by (auto simp: list_all_iff)
    qed
    with np have "brick_condition_bbb (heap s) b" by (simp add: brick_condition_bbb_def)
    with nc show False by simp
  qed
  then show ?thesis by (simp add: list_all_iff)
qed

lemma bbb_inv_next_brick:
  "bbb_inv w s \<Longrightarrow> next_brick_bbb s = (r, s') \<Longrightarrow>
     bbb_inv w s' \<and> (r = None \<longrightarrow> complete_w (heap s') w)"
proof (induction s rule: next_brick_bbb.induct)
  case (1 s)
  note inv = \<open>bbb_inv w s\<close>
  show ?case
  proof (cases "current_course s < BrickByBrick.sections s")
    case False
    with "1.prems" have eq: "r = None" "s' = s" by (simp_all add: next_brick_bbb.simps)
    from False inv have "\<forall>i < length (courses w). list_all (placed (heap s)) (bricks (courses w ! i))"
      by (auto simp: bbb_inv_def)
    then have "complete_w (heap s) w"
      unfolding complete_w_def list_all_iff by (metis in_set_conv_nth)
    with eq inv show ?thesis by simp
  next
    case True
    let ?sub = "py_slice (courses (wall s)) (current_course s) (current_course s + 1)"
    show ?thesis
    proof (cases "find (brick_condition_bbb (heap s)) (concat (map bricks (rev ?sub)))")
      case (Some b)
      with True "1.prems" have "s' = s" "r = Some b" by (simp_all add: next_brick_bbb.simps [of s])
      with inv show ?thesis by simp
    next
      case None
      let ?s1 = "s\<lparr>current_course := current_course s + 1\<rparr>"
      from None True "1.prems" have nb: "next_brick_bbb ?s1 = (r, s')"
        by (simp add: next_brick_bbb.simps [of s])
      from inv have w: "wall s = w" by (simp add: bbb_inv_def)
      from bbb_inv_course_placed [OF inv True] None w
      have cp: "list_all (placed (heap s)) (bricks (courses w ! nat (current_course s)))" by simp
      have "bbb_inv w ?s1"
        unfolding bbb_inv_def
      proof (intro conjI allI impI)
        fix i assume i: "i < length (courses w)" "int i < current_course ?s1"
        show "list_all (placed (heap ?s1)) (bricks (courses w ! i))"
        proof (cases "int i < current_course s")
          case True
          with inv i show ?thesis by (simp add: bbb_inv_def)
        next
          case False
          with i have "i = nat (current_course s)" by simp
          with cp show ?thesis by simp
        qed
      qed (use inv in \<open>simp_all add: bbb_inv_def\<close>)
      from "1.IH" [OF True refl None this nb] show ?thesis .
    qed
  qed
qed

lemma build_all_bbb_completes:
  "bbb_inv w s \<Longrightarrow> distinct (all_bricks w) \<Longrightarrow> unplaced (heap s) w = k \<Longrightarrow>
     \<exists>s'. build_all_bbb (Suc k) s = Some (k, s') \<and> complete_w (heap s') w \<and> wall s' = w"
proof (induction k arbitrary: s)
  case 0
  obtain r s1 where nb: "next_brick_bbb s = (r, s1)" by (cases "next_brick_bbb s")
  from bbb_inv_next_brick [OF "0.prems"(1) nb] have inv1: "bbb_inv w s1"
    and c: "r = None \<longrightarrow> complete_w (heap s1) w" by simp_all
  show ?case
  proof (cases r)
    case None
    with nb c inv1 show ?thesis by (simp add: place_next_brick_bbb_def bbb_inv_def)
  next
    case (Some b)
    with next_brick_bbb_Some nb have "brick_condition_bbb (heap s1) b" "b \<in> set (all_bricks (wall s1))"
      by blast+
    moreover from next_brick_bbb_frame [OF nb] inv1 have "heap s1 = heap s" "wall s1 = w"
      by (simp_all add: bbb_inv_def)
    ultimately have "b \<in> set (all_bricks w)" "\<not> placed (heap s) b"
      by (auto simp: brick_condition_bbb_def split: if_splits)
    with "0.prems"(3) show ?thesis
      by (auto simp: unplaced_def filter_empty_conv)
  qed
next
  case (Suc k)
  obtain r s1 where nb: "next_brick_bbb s = (r, s1)" by (cases "next_brick_bbb s")
  from bbb_inv_next_brick [OF Suc.prems(1) nb] have inv1: "bbb_inv w s1"
    and c: "r = None \<longrightarrow> complete_w (heap s1) w" by simp_all
  from next_brick_bbb_frame [OF nb] inv1 have fr: "heap s1 = heap s" "wall s1 = w"
    by (simp_all add: bbb_inv_def)
  show ?case
  proof (cases r)
    case None
    with c fr have "unplaced (heap s) w = 0" by (simp add: unplaced_0_complete)
    with Suc.prems(3) show ?thesis by simp
  next
    case (Some b)
    with next_brick_bbb_Some nb have "brick_condition_bbb (heap s1) b" "b \<in> set (all_bricks (wall s1))"
      by blast+
    with fr have b: "b \<in> set (all_bricks w)" "\<not> placed (heap s) b"
      by (auto simp: brick_condition_bbb_def split: if_splits)
    let ?s2 = "s1\<lparr>heap := place (heap s1) b\<rparr>"
    from unplaced_place [OF Suc.prems(2) b] Suc.prems(3) fr
    have u: "unplaced (heap ?s2) w = k" by simp
    have inv2: "bbb_inv w ?s2"
      using inv1 by (auto simp: bbb_inv_def supports_below_place list_all_iff placed_place)
    from Suc.IH [OF inv2 Suc.prems(2) u] obtain s' where
      "build_all_bbb (Suc k) ?s2 = Some (k, s')" "complete_w (heap s') w" "wall s' = w"
      by blast
    with nb Some show ?thesis
      by (simp add: place_next_brick_bbb_def)
  qed
qed

lemma bbb_inv_init:
  "supports_below h w \<Longrightarrow> bbb_inv w (BrickByBrick_init w h)"
  by (simp add: bbb_inv_def BrickByBrick_init_def)

section \<open>Lemmas: the envelope scheduler\<close>

lemma next_brick_iter_cases [consumes 1, case_names exhausted raised found no_courses
    finished vertical hraised stalled horizontal]:
  assumes "(if current_section s < sections s then
        (let wall_subset = get_current_wall_subset s in
         case scan s (concat (map (get_directional_course s) (rev wall_subset))) of
           Inl e \<Rightarrow> Some (Inl e)
         | Inr (Some brick) \<Rightarrow> Some (Inr (Some brick, tag s brick))
         | Inr None \<Rightarrow>
             (case wall_subset of
                [] \<Rightarrow> Some (Inl IndexError)
              | top_course # _ \<Rightarrow>
                  if list_all (placed (heap s)) (bricks top_course) then
                    (case step_vertically cfg s of
                       (moved, s') \<Rightarrow>
                         if moved then f cfg s' else Some (Inr (None, s')))
                  else
                    (case step_horizontally cfg s top_course of
                       Inl e \<Rightarrow> Some (Inl e)
                     | Inr (moved, s') \<Rightarrow>
                         if \<not> moved then Some (Inr (None, s')) else f cfg s')))
      else Some (Inr (None, s))) = Some y"
  obtains
    "\<not> current_section s < sections s" "y = Inr (None, s)"
  | e where "current_section s < sections s" "scan s (scan_order s) = Inl e" "y = Inl e"
  | b where "current_section s < sections s" "scan s (scan_order s) = Inr (Some b)"
      "y = Inr (Some b, tag s b)"
  | "current_section s < sections s" "scan s (scan_order s) = Inr None"
      "get_current_wall_subset s = []" "y = Inl IndexError"
  | top_course rest s1 where "current_section s < sections s" "scan s (scan_order s) = Inr None"
      "get_current_wall_subset s = top_course # rest"
      "list_all (placed (heap s)) (bricks top_course)"
      "step_vertically cfg s = (False, s1)" "y = Inr (None, s1)"
  | top_course rest s1 where "current_section s < sections s" "scan s (scan_order s) = Inr None"
      "get_current_wall_subset s = top_course # rest"
      "list_all (placed (heap s)) (bricks top_course)"
      "step_vertically cfg s = (True, s1)" "f cfg s1 = Some y"
  | top_course rest e where "current_section s < sections s" "scan s (scan_order s) = Inr None"
      "get_current_wall_subset s = top_course # rest"
      "\<not> list_all (placed (heap s)) (bricks top_course)"
      "step_horizontally cfg s top_course = Inl e" "y = Inl e"
  | top_course rest s1 where "current_section s < sections s" "scan s (scan_order s) = Inr None"
      "get_current_wall_subset s = top_course # rest"
      "\<not> list_all (placed (heap s)) (bricks top_course)"
      "step_horizontally cfg s top_course = Inr (False, s1)" "y = Inr (None, s1)"
  | top_course rest s1 where "current_section s < sections s" "scan s (scan_order s) = Inr None"
      "get_current_wall_subset s = top_course # rest"
      "\<not> list_all (placed (heap s)) (bricks top_course)"
      "step_horizontally cfg s top_course = Inr (True, s1)" "f cfg s1 = Some y"
  using assms
  by (auto simp: Let_def split: if_splits sum.splits option.splits list.splits prod.splits)

lemma lcs_frame_refl: "lcs_frame s s"
  by (simp add: lcs_frame_def)

lemma lcs_frame_trans: "lcs_frame s t \<Longrightarrow> lcs_frame t u \<Longrightarrow> lcs_frame s u"
  by (auto simp: lcs_frame_def)

lemma step_vertically_frame:
  "step_vertically cfg s = (m, s1) \<Longrightarrow>
     lcs_frame s s1 \<and> heap s1 = heap s \<and> (\<not> m \<longrightarrow> \<not> current_section s1 < sections s1)"
  by (auto simp: step_vertically_def Let_def lcs_frame_def split: if_splits)

lemma step_horizontally_frame:
  "step_horizontally cfg s c = Inr (m, s1) \<Longrightarrow>
     lcs_frame s s1 \<and> heap s1 = heap s \<and> (\<not> m \<longrightarrow> s1 = s)"
  by (auto simp: step_horizontally_def Let_def lcs_frame_def split: if_splits option.splits)

lemma scan_found: "scan s bs = Inr (Some b) \<Longrightarrow> b \<in> set bs \<and> brick_condition_lcs s b = Inr True"
  by (induction bs) (auto split: sum.splits bool.splits)

lemma brick_condition_lcs_cong:
  assumes "placed (heap s') = placed (heap s)"
    and "x_start (heap s' b) = x_start (heap s b)" and "x_end (heap s' b) = x_end (heap s b)"
    and "row (heap s' b) = row (heap s b)" and "supports (heap s' b) = supports (heap s b)"
    and "current_stride_x_min s' = current_stride_x_min s"
    and "build_envelope s' = build_envelope s"
  shows "brick_condition_lcs s' b = brick_condition_lcs s b"
  unfolding brick_condition_lcs_def assms by (rule refl)

lemma brick_condition_lcs_tag: "brick_condition_lcs (tag s c) b = brick_condition_lcs s b"
  by (rule brick_condition_lcs_cong) (auto simp: tag_def placed_def fun_eq_iff)

lemma scan_tag: "scan (tag s c) bs = scan s bs"
  by (induction bs) (auto simp: brick_condition_lcs_tag split: sum.splits bool.splits)

lemma get_directional_course_tag: "get_directional_course (tag s c) = get_directional_course s"
  by (simp add: fun_eq_iff tag_def get_directional_course_def)

lemma get_current_wall_subset_tag: "get_current_wall_subset (tag s c) = get_current_wall_subset s"
  by (simp add: tag_def get_current_wall_subset_def)

lemma scan_order_tag: "scan_order (tag s c) = scan_order s"
  by (simp add: get_directional_course_tag get_current_wall_subset_tag)

lemma tag_tag: "tag (tag s b) b = tag s b"
  by (simp add: tag_def)

lemma tag_frame: "lcs_frame s (tag s b)"
  by (simp add: tag_def lcs_frame_def)

lemma scan_order_subset: "set (scan_order s) \<subseteq> set (all_bricks (wall s))"
  using set_py_slice [of "courses (wall s)"]
  by (auto simp: all_bricks_def get_current_wall_subset_def get_directional_course_def
      split: if_splits)

lemma next_brick_lcs_post:
  assumes "next_brick_lcs cfg s = Some y"
  shows "\<forall>r s'. y = Inr (r, s') \<longrightarrow> next_brick_post cfg s r s'"
proof (rule next_brick_lcs.raw_induct
    [where P = "\<lambda>cfg s y. \<forall>r s'. y = Inr (r, s') \<longrightarrow> next_brick_post cfg s r s'", OF _ assms])
  fix f :: "config \<Rightarrow> LimitedCourseStride \<Rightarrow> (error + (ref option \<times> LimitedCourseStride)) option"
    and cfg s y
  assume IH: "\<And>cfg s y. f cfg s = Some y \<Longrightarrow> \<forall>r s'. y = Inr (r, s') \<longrightarrow> next_brick_post cfg s r s'"
  assume "(if current_section s < sections s then
        (let wall_subset = get_current_wall_subset s in
         case scan s (concat (map (get_directional_course s) (rev wall_subset))) of
           Inl e \<Rightarrow> Some (Inl e)
         | Inr (Some brick) \<Rightarrow> Some (Inr (Some brick, tag s brick))
         | Inr None \<Rightarrow>
             (case wall_subset of
                [] \<Rightarrow> Some (Inl IndexError)
              | top_course # _ \<Rightarrow>
                  if list_all (placed (heap s)) (bricks top_course) then
                    (case step_vertically cfg s of
                       (moved, s') \<Rightarrow>
                         if moved then f cfg s' else Some (Inr (None, s')))
                  else
                    (case step_horizontally cfg s top_course of
                       Inl e \<Rightarrow> Some (Inl e)
                     | Inr (moved, s') \<Rightarrow>
                         if \<not> moved then Some (Inr (None, s')) else f cfg s')))
      else Some (Inr (None, s))) = Some y"
  then show "\<forall>r s'. y = Inr (r, s') \<longrightarrow> next_brick_post cfg s r s'"
  proof (cases rule: next_brick_iter_cases)
    case exhausted
    then show ?thesis
      by (simp add: next_brick_post_def lcs_frame_refl next_brick_lcs.simps [of cfg s])
  next
    case (raised e)
    then show ?thesis by simp
  next
    case (found b)
    have "next_brick_lcs cfg (tag s b) = Some (Inr (Some b, tag s b))"
      using found(1,2)
      by (subst next_brick_lcs.simps) (simp add: scan_tag scan_order_tag tag_tag, simp add: tag_def)
    moreover from found(2) have "b \<in> set (scan_order s)" "brick_condition_lcs s b = Inr True"
      using scan_found by blast+
    moreover have "wall (tag s b) = wall s" "current_stride (tag s b) = current_stride s"
      "heap (tag s b) = (heap s)(b := (heap s b)\<lparr>stride_index := current_stride s\<rparr>)"
      by (simp_all add: tag_def)
    ultimately show ?thesis
      using found(3) scan_order_subset [of s]
      by (auto simp: next_brick_post_def tag_frame brick_condition_lcs_tag)
  next
    case no_courses
    then show ?thesis by simp
  next
    case (finished top_course rest s1)
    from step_vertically_frame [OF finished(5)]
    have "lcs_frame s s1" "heap s1 = heap s" "\<not> current_section s1 < sections s1" by simp_all
    then show ?thesis using finished(6)
      by (simp add: next_brick_post_def next_brick_lcs.simps [of cfg s1])
  next
    case (vertical top_course rest s1)
    from step_vertically_frame [OF vertical(5)]
    have fr: "lcs_frame s s1" "heap s1 = heap s" by simp_all
    show ?thesis
    proof (intro allI impI)
      fix r s' assume y: "y = Inr (r, s')"
      with IH [OF vertical(6)] have "next_brick_post cfg s1 r s'" by simp
      with fr show "next_brick_post cfg s r s'"
        by (auto simp: next_brick_post_def intro: lcs_frame_trans split: option.splits)
    qed
  next
    case (hraised top_course rest e)
    then show ?thesis by simp
  next
    case (stalled top_course rest s1)
    from step_horizontally_frame [OF stalled(5)] have eq: "s1 = s" by simp
    have "next_brick_lcs cfg s = Some (Inr (None, s))"
      using stalled(1-5) eq by (subst next_brick_lcs.simps) simp
    with eq stalled(6) show ?thesis
      by (simp add: next_brick_post_def lcs_frame_refl)
  next
    case (horizontal top_course rest s1)
    from step_horizontally_frame [OF horizontal(5)]
    have fr: "lcs_frame s s1" "heap s1 = heap s" by simp_all
    show ?thesis
    proof (intro allI impI)
      fix r s' assume y: "y = Inr (r, s')"
      with IH [OF horizontal(6)] have "next_brick_post cfg s1 r s'" by simp
      with fr show "next_brick_post cfg s r s'"
        by (auto simp: next_brick_post_def intro: lcs_frame_trans split: option.splits)
    qed
  qed
qed

lemma heap_grows_refl: "heap_grows h h"
  unfolding heap_grows_def
proof (intro allI conjI impI)
  fix b show "\<exists>k st. h b = (h b)\<lparr>state := st, stride_index := k\<rparr>"
    by (intro exI [of _ "stride_index (h b)"] exI [of _ "state (h b)"]) simp
qed simp

lemma heap_grows_trans:
  assumes "heap_grows h1 h2" "heap_grows h2 h3"
  shows "heap_grows h1 h3"
  unfolding heap_grows_def
proof (intro allI conjI impI)
  fix b
  from assms(1) obtain k st where a: "h2 b = (h1 b)\<lparr>state := st, stride_index := k\<rparr>"
    unfolding heap_grows_def by blast
  from assms(2) obtain k' st' where b: "h3 b = (h2 b)\<lparr>state := st', stride_index := k'\<rparr>"
    unfolding heap_grows_def by blast
  from a b have "h3 b = (h1 b)\<lparr>state := st', stride_index := k'\<rparr>" by simp
  then show "\<exists>k st. h3 b = (h1 b)\<lparr>state := st, stride_index := k\<rparr>" by blast
next
  fix b assume p: "placed h1 b"
  with assms(1) have e: "h2 b = h1 b" unfolding heap_grows_def by blast
  with p have "placed h2 b" by (simp add: placed_def)
  with assms(2) have "h3 b = h2 b" unfolding heap_grows_def by blast
  with e show "h3 b = h1 b" by simp
qed

lemma heap_grows_frozen: "heap_grows h h' \<Longrightarrow> placed h b \<Longrightarrow> h' b = h b"
  unfolding heap_grows_def by blast

lemma heap_grows_placed: "heap_grows h h' \<Longrightarrow> placed h b \<Longrightarrow> placed h' b"
  using heap_grows_frozen [of h h' b] by (simp add: placed_def)

lemma heap_grows_shape:
  assumes "heap_grows h h'"
  shows "row (h' b) = row (h b)" "supports (h' b) = supports (h b)"
    "x_start (h' b) = x_start (h b)" "x_end (h' b) = x_end (h b)"
    "length_mm (h' b) = length_mm (h b)"
proof -
  from assms obtain k st where "h' b = (h b)\<lparr>state := st, stride_index := k\<rparr>"
    unfolding heap_grows_def by blast
  then show "row (h' b) = row (h b)" "supports (h' b) = supports (h b)"
    "x_start (h' b) = x_start (h b)" "x_end (h' b) = x_end (h b)"
    "length_mm (h' b) = length_mm (h b)"
    by simp_all
qed

lemma heap_grows_tag:
  "\<not> placed h b \<Longrightarrow> heap_grows h (h(b := (h b)\<lparr>stride_index := k\<rparr>))"
  unfolding heap_grows_def
proof (intro allI conjI impI)
  fix c
  show "\<exists>k' st. (h(b := (h b)\<lparr>stride_index := k\<rparr>)) c = (h c)\<lparr>state := st, stride_index := k'\<rparr>"
  proof (cases "c = b")
    case True
    then show ?thesis by (intro exI [of _ k] exI [of _ "state (h b)"]) simp
  next
    case False
    then show ?thesis by (intro exI [of _ "stride_index (h c)"] exI [of _ "state (h c)"]) simp
  qed
qed auto

lemma heap_grows_place: "\<not> placed h b \<Longrightarrow> heap_grows h (place h b)"
  unfolding heap_grows_def
proof (intro allI conjI impI)
  fix c
  show "\<exists>k st. place h b c = (h c)\<lparr>state := st, stride_index := k\<rparr>"
  proof (cases "c = b")
    case True
    then show ?thesis
      by (intro exI [of _ "stride_index (h b)"] exI [of _ PLACED]) (simp add: place_def)
  next
    case False
    then show ?thesis
      by (intro exI [of _ "stride_index (h c)"] exI [of _ "state (h c)"]) (simp add: place_def)
  qed
qed (auto simp: place_def)

lemma brick_condition_lcs_True:
  "brick_condition_lcs s b = Inr True \<Longrightarrow>
     \<not> placed (heap s) b
     \<and> (row (heap s b) = 0 \<or> list_all (placed (heap s)) (supports (heap s b)))"
  by (auto simp: brick_condition_lcs_def Let_def split: if_splits option.splits)

lemma next_brick_lcs_heap_grows:
  assumes "next_brick_lcs cfg s = Some (Inr (r, s'))"
  shows "heap_grows (heap s) (heap s')"
proof -
  from next_brick_lcs_post [OF assms] have p: "next_brick_post cfg s r s'" by simp
  show ?thesis
  proof (cases r)
    case None
    with p show ?thesis by (simp add: next_brick_post_def heap_grows_refl)
  next
    case (Some b)
    with p have h: "heap s' = (heap s)(b := (heap s b)\<lparr>stride_index := current_stride s'\<rparr>)"
      and c: "brick_condition_lcs s' b = Inr True"
      by (simp_all add: next_brick_post_def)
    from brick_condition_lcs_True [OF c] h have "\<not> placed (heap s) b"
      by (simp add: placed_def)
    with h show ?thesis by (simp add: heap_grows_tag)
  qed
qed

lemma deps_ok_place:
  assumes "deps_ok h w" and "\<not> placed h b"
    and "row (h b) = 0 \<or> list_all (placed h) (supports (h b))"
  shows "deps_ok (place h b) w"
proof -
  have r: "row (place h b c) = row (h c)" for c by (simp add: place_def)
  show ?thesis
    using assms unfolding deps_ok_def list_all_iff
    by (auto simp: placed_place place_supports r)
qed

lemma deps_ok_grows_same_placed:
  assumes "deps_ok h w" "heap_grows h h'" "\<forall>b. placed h' b = placed h b"
  shows "deps_ok h' w"
  using assms heap_grows_shape [OF assms(2)] unfolding deps_ok_def list_all_iff by simp

lemma stride_iter_cases [consumes 1, case_names raised none later same]:
  assumes "Option.bind (next_brick_lcs cfg s) (\<lambda>r.
       case r of
         Inl e \<Rightarrow> Some (Inl e)
       | Inr (None, s') \<Rightarrow> Some (Inr (n, s'))
       | Inr (Some brick, s') \<Rightarrow>
           if stride_index (heap s' brick) \<noteq> start_stride then Some (Inr (n, s'))
           else f cfg start_stride (n + 1) (s'\<lparr>heap := place (heap s') brick\<rparr>)) = Some y"
  obtains e where "next_brick_lcs cfg s = Some (Inl e)" "y = Inl e"
  | s1 where "next_brick_lcs cfg s = Some (Inr (None, s1))" "y = Inr (n, s1)"
  | b s1 where "next_brick_lcs cfg s = Some (Inr (Some b, s1))"
      "stride_index (heap s1 b) \<noteq> start_stride" "y = Inr (n, s1)"
  | b s1 where "next_brick_lcs cfg s = Some (Inr (Some b, s1))"
      "stride_index (heap s1 b) = start_stride"
      "f cfg start_stride (n + 1) (s1\<lparr>heap := place (heap s1) b\<rparr>) = Some y"
proof -
  from assms obtain r where nb: "next_brick_lcs cfg s = Some r"
    and c: "(case r of
         Inl e \<Rightarrow> Some (Inl e)
       | Inr (None, s') \<Rightarrow> Some (Inr (n, s'))
       | Inr (Some brick, s') \<Rightarrow>
           if stride_index (heap s' brick) \<noteq> start_stride then Some (Inr (n, s'))
           else f cfg start_stride (n + 1) (s'\<lparr>heap := place (heap s') brick\<rparr>)) = Some y"
    by (auto simp: bind_eq_Some_conv)
  show thesis
  proof (cases r)
    case (Inl e)
    with nb c that(1) show thesis by simp
  next
    case (Inr p)
    obtain ob s1 where p: "p = (ob, s1)" by (cases p)
    show thesis
    proof (cases ob)
      case None
      with Inr p nb c that(2) show thesis by simp
    next
      case (Some b)
      show thesis
      proof (cases "stride_index (heap s1 b) = start_stride")
        case True
        with Some Inr p nb c that(4) show thesis by simp
      next
        case False
        with Some Inr p nb c that(3) show thesis by simp
      qed
    qed
  qed
qed

lemma stride_post_stop:
  assumes nb: "next_brick_lcs cfg s = Some (Inr (r, s1))"
    and r: "\<forall>c. r = Some c \<longrightarrow> stride_index (heap s1 c) \<noteq> start"
  shows "stride_post cfg start n s n s1"
proof -
  from next_brick_lcs_post [OF nb] have p: "next_brick_post cfg s r s1" by simp
  have g: "heap_grows (heap s) (heap s1)" using nb by (rule next_brick_lcs_heap_grows)
  have same: "placed (heap s1) b = placed (heap s) b" for b
    using p by (cases r) (auto simp: next_brick_post_def placed_def)
  from p have fr: "lcs_frame s s1" and again: "next_brick_lcs cfg s1 = Some (Inr (r, s1))"
    by (simp_all add: next_brick_post_def)
  from fr have w: "wall s1 = wall s" by (simp add: lcs_frame_def)
  have "deps_ok (heap s) (wall s) \<longrightarrow> deps_ok (heap s1) (wall s1)"
    using deps_ok_grows_same_placed [OF _ g] same w by simp
  with fr g same again r show ?thesis
    unfolding stride_post_def by auto
qed

lemma complete_stride_loop_post:
  assumes "complete_stride_loop cfg start n s = Some y"
  shows "\<forall>m s'. y = Inr (m, s') \<longrightarrow> stride_post cfg start n s m s'"
proof (rule complete_stride_loop.raw_induct
    [where P = "\<lambda>cfg start n s y. \<forall>m s'. y = Inr (m, s') \<longrightarrow> stride_post cfg start n s m s'",
      OF _ assms])
  fix f :: "config \<Rightarrow> int \<Rightarrow> nat \<Rightarrow> LimitedCourseStride \<Rightarrow> (error + (nat \<times> LimitedCourseStride)) option"
    and cfg start n s y
  assume IH: "\<And>cfg start n s y. f cfg start n s = Some y \<Longrightarrow>
      \<forall>m s'. y = Inr (m, s') \<longrightarrow> stride_post cfg start n s m s'"
  assume "Option.bind (next_brick_lcs cfg s) (\<lambda>r.
       case r of
         Inl e \<Rightarrow> Some (Inl e)
       | Inr (None, s') \<Rightarrow> Some (Inr (n, s'))
       | Inr (Some brick, s') \<Rightarrow>
           if stride_index (heap s' brick) \<noteq> start then Some (Inr (n, s'))
           else f cfg start (n + 1) (s'\<lparr>heap := place (heap s') brick\<rparr>)) = Some y"
  then show "\<forall>m s'. y = Inr (m, s') \<longrightarrow> stride_post cfg start n s m s'"
  proof (cases rule: stride_iter_cases)
    case (raised e)
    then show ?thesis by simp
  next
    case (none s1)
    from stride_post_stop [OF none(1), of start n] none(2) show ?thesis by simp
  next
    case (later b s1)
    from stride_post_stop [OF later(1), of start n] later(2,3) show ?thesis by simp
  next
    case (same b s1)
    let ?s2 = "s1\<lparr>heap := place (heap s1) b\<rparr>"
    from next_brick_lcs_post [OF same(1)] have p: "next_brick_post cfg s (Some b) s1" by simp
    then have fr1: "lcs_frame s s1"
      and h1: "heap s1 = (heap s)(b := (heap s b)\<lparr>stride_index := current_stride s1\<rparr>)"
      and bw: "b \<in> set (all_bricks (wall s1))"
      and bc: "brick_condition_lcs s1 b = Inr True"
      by (simp_all add: next_brick_post_def)
    from fr1 have w1: "wall s1 = wall s" by (simp add: lcs_frame_def)
    from brick_condition_lcs_True [OF bc]
    have np1: "\<not> placed (heap s1) b"
      and sup: "row (heap s1 b) = 0 \<or> list_all (placed (heap s1)) (supports (heap s1 b))"
      by simp_all
    have pl1: "placed (heap s1) c = placed (heap s) c" for c
      using h1 by (simp add: placed_def)
    have pl2: "placed (heap ?s2) c = (c = b \<or> placed (heap s) c)" for c
      by (simp add: placed_place pl1)
    have g1: "heap_grows (heap s) (heap s1)" using same(1) by (rule next_brick_lcs_heap_grows)
    have g2: "heap_grows (heap s1) (heap ?s2)" using np1 by (simp add: heap_grows_place)
    have fr2: "lcs_frame s ?s2" using fr1 by (simp add: lcs_frame_def)
    have tag2: "stride_index (heap ?s2 b) = start" using same(2) by (simp add: place_def)
    have pb2: "placed (heap ?s2) b" by (simp add: placed_place)
    show ?thesis
    proof (intro allI impI)
      fix m s' assume y: "y = Inr (m, s')"
      with IH [OF same(3)] have q: "stride_post cfg start (n + 1) ?s2 m s'" by simp
      then have fr3: "lcs_frame ?s2 s'" and g3: "heap_grows (heap ?s2) (heap s')"
        and m: "m = n + 1 + card {c \<in> set (all_bricks (wall ?s2)).
             placed (heap s') c \<and> \<not> placed (heap ?s2) c}"
        and tg: "\<forall>c. placed (heap s') c \<and> \<not> placed (heap ?s2) c \<longrightarrow>
             c \<in> set (all_bricks (wall ?s2)) \<and> stride_index (heap s' c) = start"
        and dp: "deps_ok (heap ?s2) (wall ?s2) \<longrightarrow> deps_ok (heap s') (wall s')"
        and fin: "\<exists>r. next_brick_lcs cfg s' = Some (Inr (r, s'))
             \<and> (\<forall>c. r = Some c \<longrightarrow> stride_index (heap s' c) \<noteq> start)"
        unfolding stride_post_def by simp_all
      from heap_grows_frozen [OF g3 pb2] have fb: "heap s' b = heap ?s2 b" .
      then have pb': "placed (heap s') b" using pb2 by (simp add: placed_def)
      let ?N = "{c \<in> set (all_bricks (wall s)). placed (heap s') c \<and> \<not> placed (heap s) c}"
      let ?N2 = "{c \<in> set (all_bricks (wall ?s2)). placed (heap s') c \<and> \<not> placed (heap ?s2) c}"
      have "?N = insert b ?N2"
        using bw w1 pb' np1 pl1 pl2 by auto
      moreover have "b \<notin> ?N2" using pb2 by simp
      moreover have "finite ?N2" by simp
      ultimately have "card ?N = Suc (card ?N2)" by simp
      with m have c1: "m = n + card ?N" by simp
      have c2: "\<forall>c. placed (heap s') c \<and> \<not> placed (heap s) c \<longrightarrow>
             c \<in> set (all_bricks (wall s)) \<and> stride_index (heap s' c) = start"
      proof (intro allI impI)
        fix c assume c: "placed (heap s') c \<and> \<not> placed (heap s) c"
        show "c \<in> set (all_bricks (wall s)) \<and> stride_index (heap s' c) = start"
        proof (cases "c = b")
          case True
          with bw w1 fb tag2 show ?thesis by simp
        next
          case False
          with c pl2 have "placed (heap s') c \<and> \<not> placed (heap ?s2) c" by simp
          with tg w1 show ?thesis by simp
        qed
      qed
      have c3: "deps_ok (heap s) (wall s) \<longrightarrow> deps_ok (heap s') (wall s')"
      proof
        assume d: "deps_ok (heap s) (wall s)"
        have "deps_ok (heap s1) (wall s)"
          using deps_ok_grows_same_placed [OF d g1] pl1 by simp
        from deps_ok_place [OF this np1 sup] dp w1 show "deps_ok (heap s') (wall s')" by simp
      qed
      from lcs_frame_trans [OF fr2 fr3] heap_grows_trans [OF heap_grows_trans [OF g1 g2] g3]
        c1 c2 c3 fin
      show "stride_post cfg start n s m s'"
        unfolding stride_post_def by simp
    qed
  qed
qed

section \<open>Lemmas: runs of the schedulers\<close>

lemma deps_ok_fresh: "list_all (\<lambda>b. \<not> placed h b) (all_bricks w) \<Longrightarrow> deps_ok h w"
  by (simp add: deps_ok_def list_all_iff)

lemma brick_condition_bbb_True:
  "brick_condition_bbb h b \<Longrightarrow>
     \<not> placed h b \<and> (row (h b) = 0 \<or> list_all (placed h) (supports (h b)))"
  by (auto simp: brick_condition_bbb_def split: if_splits)

lemma bbb_step_deps_ok:
  assumes "bbb_step s s'" and d: "deps_ok (heap s) (wall s)"
  shows "deps_ok (heap s') (wall s')"
  using assms(1)
proof cases
  case (bbb_next r)
  from next_brick_bbb_frame [OF this] d show ?thesis by simp
next
  case (bbb_place ok)
  obtain r s1 where nb: "next_brick_bbb s = (r, s1)" by (cases "next_brick_bbb s")
  from next_brick_bbb_frame [OF nb] have fr: "heap s1 = heap s" "wall s1 = wall s" by simp_all
  show ?thesis
  proof (cases r)
    case None
    with nb bbb_place fr d show ?thesis by (simp add: place_next_brick_bbb_def)
  next
    case (Some b)
    with nb bbb_place have s': "s' = s1\<lparr>heap := place (heap s1) b\<rparr>"
      by (simp add: place_next_brick_bbb_def)
    from Some nb next_brick_bbb_Some have "brick_condition_bbb (heap s1) b" by blast
    from brick_condition_bbb_True [OF this] fr
    have "\<not> placed (heap s) b" "row (heap s b) = 0 \<or> list_all (placed (heap s)) (supports (heap s b))"
      by simp_all
    from deps_ok_place [OF d this] s' fr show ?thesis by simp
  qed
next
  case (bbb_stride n)
  then show ?thesis by (simp add: complete_stride_bbb_def)
qed

lemma bbb_steps_deps_ok:
  "bbb_step\<^sup>*\<^sup>* s s' \<Longrightarrow> deps_ok (heap s) (wall s) \<Longrightarrow> deps_ok (heap s') (wall s')"
  by (induction rule: rtranclp_induct) (auto intro: bbb_step_deps_ok)

lemma next_brick_lcs_same_placed:
  assumes "next_brick_lcs cfg s = Some (Inr (r, s'))"
  shows "placed (heap s') b = placed (heap s) b"
proof -
  from next_brick_lcs_post [OF assms] have "next_brick_post cfg s r s'" by simp
  then show ?thesis by (cases r) (auto simp: next_brick_post_def placed_def)
qed

lemma place_next_brick_lcs_cases [consumes 1, case_names none placed]:
  assumes "place_next_brick_lcs cfg s = Some (Inr (ok, s'))"
  obtains "next_brick_lcs cfg s = Some (Inr (None, s'))" "\<not> ok"
  | b s1 where "next_brick_lcs cfg s = Some (Inr (Some b, s1))" "ok"
      "s' = s1\<lparr>heap := place (heap s1) b\<rparr>"
  using assms unfolding place_next_brick_lcs_def
  by (auto split: option.splits sum.splits prod.splits)

lemma complete_stride_lcs_post:
  "complete_stride_lcs cfg s = Some (Inr (n, s')) \<Longrightarrow> stride_post cfg (current_stride s) 0 s n s'"
  unfolding complete_stride_lcs_def using complete_stride_loop_post by blast

lemma lcs_step_deps_ok:
  assumes "lcs_step cfg s s'" and d: "deps_ok (heap s) (wall s)"
  shows "deps_ok (heap s') (wall s')"
  using assms(1)
proof cases
  case (lcs_next r)
  from next_brick_lcs_post [OF lcs_next] have "lcs_frame s s'" by (simp add: next_brick_post_def)
  then have w: "wall s' = wall s" by (simp add: lcs_frame_def)
  from deps_ok_grows_same_placed [OF d next_brick_lcs_heap_grows [OF lcs_next]]
    next_brick_lcs_same_placed [OF lcs_next] w
  show ?thesis by simp
next
  case (lcs_place ok)
  then show ?thesis
  proof (cases rule: place_next_brick_lcs_cases)
    case none
    from next_brick_lcs_post [OF none(1)] have "lcs_frame s s'" by (simp add: next_brick_post_def)
    then have w: "wall s' = wall s" by (simp add: lcs_frame_def)
    from deps_ok_grows_same_placed [OF d next_brick_lcs_heap_grows [OF none(1)]]
      next_brick_lcs_same_placed [OF none(1)] w
    show ?thesis by simp
  next
    case (placed b s1)
    from next_brick_lcs_post [OF placed(1)] have p: "next_brick_post cfg s (Some b) s1" by simp
    then have "lcs_frame s s1" and bc: "brick_condition_lcs s1 b = Inr True"
      by (simp_all add: next_brick_post_def)
    then have w: "wall s1 = wall s" by (simp add: lcs_frame_def)
    have d1: "deps_ok (heap s1) (wall s)"
      using deps_ok_grows_same_placed [OF d next_brick_lcs_heap_grows [OF placed(1)]]
        next_brick_lcs_same_placed [OF placed(1)] by simp
    from brick_condition_lcs_True [OF bc]
    have "\<not> placed (heap s1) b"
      "row (heap s1 b) = 0 \<or> list_all (placed (heap s1)) (supports (heap s1 b))" by simp_all
    from deps_ok_place [OF d1 this] placed(3) w show ?thesis by simp
  qed
next
  case (lcs_stride n)
  from complete_stride_lcs_post [OF this] d show ?thesis by (simp add: stride_post_def)
qed

lemma lcs_steps_deps_ok:
  "(lcs_step cfg)\<^sup>*\<^sup>* s s' \<Longrightarrow> deps_ok (heap s) (wall s) \<Longrightarrow> deps_ok (heap s') (wall s')"
  by (induction rule: rtranclp_induct) (auto intro: lcs_step_deps_ok)



lemma brick_condition_lcs_in_window:
  "brick_condition_lcs s b = Inr True \<Longrightarrow> in_window s b"
  by (auto simp: brick_condition_lcs_def in_window_def Let_def split: if_splits option.splits)

lemma next_brick_lcs_candidate:
  assumes "next_brick_lcs cfg s = Some (Inr (Some b, s'))"
  shows "\<not> placed (heap s') b \<and> in_window s' b
    \<and> (row (heap s' b) = 0 \<or> list_all (placed (heap s')) (supports (heap s' b)))
    \<and> stride_index (heap s' b) = current_stride s'
    \<and> b \<in> set (all_bricks (wall s'))
    \<and> \<not> placed (heap s) b
    \<and> (\<forall>d. d \<noteq> b \<longrightarrow> heap s' d = heap s d)"
proof -
  from next_brick_lcs_post [OF assms] have p: "next_brick_post cfg s (Some b) s'" by simp
  then have h: "heap s' = (heap s)(b := (heap s b)\<lparr>stride_index := current_stride s'\<rparr>)"
    and bw: "b \<in> set (all_bricks (wall s'))"
    and bc: "brick_condition_lcs s' b = Inr True"
    by (simp_all add: next_brick_post_def)
  from h have "stride_index (heap s' b) = current_stride s'"
    by (metis Brick.select_convs(5) Brick.surjective Brick.update_convs(5) fun_upd_same)
  moreover from h have "\<forall>d. d \<noteq> b \<longrightarrow> heap s' d = heap s d" by simp
  moreover from next_brick_lcs_same_placed [OF assms, of b] brick_condition_lcs_True [OF bc]
  have "\<not> placed (heap s) b" by simp
  ultimately show ?thesis
    using brick_condition_lcs_True [OF bc] brick_condition_lcs_in_window [OF bc] bw by simp
qed


lemma place_next_brick_bbb_places:
  assumes "place_next_brick_bbb t = (True, t')"
  shows "\<exists>b. \<not> placed (heap t) b \<and> b \<in> set (all_bricks (wall t)) \<and> heap t' = place (heap t) b"
proof -
  obtain r t1 where nb: "next_brick_bbb t = (r, t1)" by (cases "next_brick_bbb t")
  with assms obtain b where r: "r = Some b" and t': "t' = t1\<lparr>heap := place (heap t1) b\<rparr>"
    by (cases r) (auto simp: place_next_brick_bbb_def)
  from next_brick_bbb_frame [OF nb] have fr: "heap t1 = heap t" "wall t1 = wall t" by simp_all
  from nb r next_brick_bbb_Some have "brick_condition_bbb (heap t1) b" "b \<in> set (all_bricks (wall t1))"
    by blast+
  with fr brick_condition_bbb_True [of "heap t" b] t' show ?thesis by auto
qed

lemma next_brick_lcs_found:
  "current_section s < sections s \<Longrightarrow> scan s (scan_order s) = Inr (Some b) \<Longrightarrow>
     next_brick_lcs cfg s = Some (Inr (Some b, tag s b))"
  by (subst next_brick_lcs.simps) simp

lemma next_brick_lcs_slide:
  "current_section s < sections s \<Longrightarrow> scan s (scan_order s) = Inr None \<Longrightarrow>
     get_current_wall_subset s = top_course # rest \<Longrightarrow>
     \<not> list_all (placed (heap s)) (bricks top_course) \<Longrightarrow>
     step_horizontally cfg s top_course = Inr (True, s') \<Longrightarrow>
     next_brick_lcs cfg s = next_brick_lcs cfg s'"
  by (subst next_brick_lcs.simps) simp

lemma step_horizontally_shape:
  "step_horizontally cfg s c = Inr (m, s') \<Longrightarrow>
     s' = s\<lparr>current_stride_x_min := current_stride_x_min s', current_stride := current_stride s'\<rparr>"
  by (auto simp: step_horizontally_def Let_def split: if_splits option.splits)

text \<open>
  A slide that returns \<open>True\<close> and leaves the state as it is makes \<open>next_brick\<close>
  repeat the same iteration for ever.
\<close>

lemma next_brick_lcs_stuck:
  assumes a: "current_section t < sections t" "scan t (scan_order t) = Inr None"
      "get_current_wall_subset t = top_course # rest"
      "\<not> list_all (placed (heap t)) (bricks top_course)"
      "step_horizontally cfg t top_course = Inr (True, t)"
  shows "next_brick_lcs cfg t = None"
proof (rule ccontr)
  assume "next_brick_lcs cfg t \<noteq> None"
  then obtain y where y: "next_brick_lcs cfg t = Some y" by auto
  have "\<not> (cfg = cfg \<and> t = t)"
  proof (rule next_brick_lcs.raw_induct
      [where P = "\<lambda>c s y. \<not> (c = cfg \<and> s = t)", OF _ y])
    fix f :: "config \<Rightarrow> LimitedCourseStride \<Rightarrow> (error + (ref option \<times> LimitedCourseStride)) option"
      and c s z
    assume IH: "\<And>c s z. f c s = Some z \<Longrightarrow> \<not> (c = cfg \<and> s = t)"
    assume body: "(if current_section s < sections s then
        (let wall_subset = get_current_wall_subset s in
         case scan s (concat (map (get_directional_course s) (rev wall_subset))) of
           Inl e \<Rightarrow> Some (Inl e)
         | Inr (Some brick) \<Rightarrow> Some (Inr (Some brick, tag s brick))
         | Inr None \<Rightarrow>
             (case wall_subset of
                [] \<Rightarrow> Some (Inl IndexError)
              | top_course # _ \<Rightarrow>
                  if list_all (placed (heap s)) (bricks top_course) then
                    (case step_vertically c s of
                       (moved, s') \<Rightarrow>
                         if moved then f c s' else Some (Inr (None, s')))
                  else
                    (case step_horizontally c s top_course of
                       Inl e \<Rightarrow> Some (Inl e)
                     | Inr (moved, s') \<Rightarrow>
                         if \<not> moved then Some (Inr (None, s')) else f c s')))
      else Some (Inr (None, s))) = Some z"
    show "\<not> (c = cfg \<and> s = t)"
    proof
      assume e: "c = cfg \<and> s = t"
      with body a have "f cfg t = Some z" by simp
      from IH [OF this] show False by simp
    qed
  qed
  then show False by simp
qed

text \<open>
  What holds whenever \<open>complete_stride\<close> returns: the result counts the bricks
  the call placed, all of them tagged with the stride at the start of the call;
  bricks placed before are untouched; and the next \<open>next_brick\<close> returns, on an
  unchanged state, nothing or an unplaced candidate of a later stride.
\<close>

lemma complete_stride_lcs_returned:
  assumes "complete_stride_lcs cfg s = Some (Inr (n, s'))"
  shows "n = card {b. placed (heap s') b \<and> \<not> placed (heap s) b}
    \<and> (\<forall>b. placed (heap s') b \<and> \<not> placed (heap s) b \<longrightarrow>
          stride_index (heap s' b) = current_stride s)
    \<and> (\<forall>b. placed (heap s) b \<longrightarrow> heap s' b = heap s b)
    \<and> (next_brick_lcs cfg s' = Some (Inr (None, s'))
        \<or> (\<exists>c. next_brick_lcs cfg s' = Some (Inr (Some c, s'))
              \<and> \<not> placed (heap s') c \<and> current_stride s < stride_index (heap s' c)))"
proof -
  from complete_stride_lcs_post [OF assms]
  have p: "stride_post cfg (current_stride s) 0 s n s'" .
  then have fr: "lcs_frame s s'" and g: "heap_grows (heap s) (heap s')"
    and n: "n = card {b \<in> set (all_bricks (wall s)). placed (heap s') b \<and> \<not> placed (heap s) b}"
    and tg: "\<forall>b. placed (heap s') b \<and> \<not> placed (heap s) b \<longrightarrow>
        b \<in> set (all_bricks (wall s)) \<and> stride_index (heap s' b) = current_stride s"
    and fin: "\<exists>r. next_brick_lcs cfg s' = Some (Inr (r, s'))
        \<and> (\<forall>c. r = Some c \<longrightarrow> stride_index (heap s' c) \<noteq> current_stride s)"
    unfolding stride_post_def by simp_all
  from tg have "{b \<in> set (all_bricks (wall s)). placed (heap s') b \<and> \<not> placed (heap s) b}
      = {b. placed (heap s') b \<and> \<not> placed (heap s) b}"
    by blast
  with n have c1: "n = card {b. placed (heap s') b \<and> \<not> placed (heap s) b}" by simp
  from tg have c2: "\<forall>b. placed (heap s') b \<and> \<not> placed (heap s) b \<longrightarrow>
          stride_index (heap s' b) = current_stride s" by blast
  from g have c3: "\<forall>b. placed (heap s) b \<longrightarrow> heap s' b = heap s b"
    using heap_grows_frozen by blast
  from fin obtain r where r: "next_brick_lcs cfg s' = Some (Inr (r, s'))"
    and rt: "\<forall>c. r = Some c \<longrightarrow> stride_index (heap s' c) \<noteq> current_stride s" by blast
  have c4: "next_brick_lcs cfg s' = Some (Inr (None, s'))
        \<or> (\<exists>c. next_brick_lcs cfg s' = Some (Inr (Some c, s'))
              \<and> \<not> placed (heap s') c \<and> current_stride s < stride_index (heap s' c))"
  proof (cases r)
    case None
    with r show ?thesis by simp
  next
    case (Some c)
    with r have rc: "next_brick_lcs cfg s' = Some (Inr (Some c, s'))" by simp
    from next_brick_lcs_candidate [OF rc]
    have "\<not> placed (heap s') c" "stride_index (heap s' c) = current_stride s'" by simp_all
    moreover from fr have "current_stride s \<le> current_stride s'" by (simp add: lcs_frame_def)
    moreover from rt Some have "stride_index (heap s' c) \<noteq> current_stride s" by simp
    ultimately show ?thesis using rc by auto
  qed
  from c1 c2 c3 c4 show ?thesis by blast
qed

section \<open>Lemmas: the example wall\<close>

lemma to_double_0: "to_double 0 = 0"
  by (simp add: to_double_def)

lemma to_double_1: "to_double 1 = 1"
  by code_simp

text \<open>Two bricks over three strides: the double \<open>0.6666666666666666\<close>.\<close>

lemma to_double_two_thirds: "to_double (2 / 3) = 6004799503160661 / 9007199254740992"
  by code_simp

lemma small_init:
  "LimitedCourseStride_init small_wall small_store 2 (300, 1300) = Inr small_lcs"
  by (simp add: LimitedCourseStride_init_def truediv_def to_double_1 small_lcs_def small_wall_def)

lemma small_fresh: "list_all (\<lambda>b. \<not> placed small_store b) (all_bricks small_wall)"
  by code_simp

lemma small_next_returns:
  "(case next_brick_lcs cfg_mm small_lcs of Some (Inr (Some b, s')) \<Rightarrow> True | _ \<Rightarrow> False)"
  by code_simp

lemma small_place_returns:
  "(case place_next_brick_lcs cfg_mm small_lcs of Some (Inr (ok, s')) \<Rightarrow> ok | _ \<Rightarrow> False)"
  by code_simp

lemma small_stride_returns:
  "(case complete_stride_lcs cfg_mm small_lcs of Some (Inr (n, s')) \<Rightarrow> n = 2 | _ \<Rightarrow> False)"
  by code_simp

lemma small_bbb_next_returns:
  "(case next_brick_bbb (BrickByBrick_init small_wall small_store) of
      (Some b, s') \<Rightarrow> b = 0 | _ \<Rightarrow> False)"
  by code_simp


lemma tower_init: "LimitedCourseStride_init tower_wall tower_store 1 (800, 100) = Inr tower_lcs"
proof -
  have "to_double 3 = 3" by code_simp
  then show ?thesis
    by (simp add: LimitedCourseStride_init_def truediv_def tower_lcs_def tower_wall_def)
qed

text \<open>
  The upper course of the stretcher-bond wall is what \<open>Course.append\<close> builds
  from a fresh half, full and half brick.
\<close>

lemma hang_upper_course_appended:
  "(case append_c cfg_mm ((\<lambda>_. Brick_init 210)(2 := Brick_init 100, 4 := Brick_init 100))
           (Course_init 430) 2 1 of
      Inl e \<Rightarrow> False
    | Inr (ok1, c1, h1) \<Rightarrow>
        (case append_c cfg_mm h1 c1 3 1 of
           Inl e \<Rightarrow> False
         | Inr (ok2, c2, h2) \<Rightarrow>
             (case append_c cfg_mm h2 c2 4 1 of
                Inl e \<Rightarrow> False
              | Inr (ok3, c3, h3) \<Rightarrow>
                  ok1 \<and> ok2 \<and> ok3
                  \<and> c3 = \<lparr>bricks = [2, 3, 4], width_limit = 430\<rparr>
                  \<and> h3 2 = hang_store0 2 \<and> h3 3 = hang_store0 3 \<and> h3 4 = hang_store0 4
                  \<and> width_c cfg_mm h3 c3 = 430)))"
  by code_simp

lemma hang_init: "LimitedCourseStride_init hang_wall hang_store 2 (300, 1300) = Inr hang_lcs"
  by (simp add: LimitedCourseStride_init_def truediv_def to_double_1 hang_lcs_def hang_wall_def)

lemma hang_sections:
  "current_section hang_lcs < sections hang_lcs" "current_section hang_s1 < sections hang_s1"
  "current_section hang_s2 < sections hang_s2" "current_section hang_s3 < sections hang_s3"
  "current_stride hang_lcs = 0"
  by (simp_all add: hang_lcs_def hang_s1_def hang_s2_def hang_s3_def tag_def)

lemma hang_facts:
  "scan hang_lcs (scan_order hang_lcs) = Inr (Some 0)"
  "scan hang_s1 (scan_order hang_s1) = Inr (Some 2)"
  "scan hang_s2 (scan_order hang_s2) = Inr None"
  "scan hang_s3 (scan_order hang_s3) = Inr None"
  "get_current_wall_subset hang_s2
     = [\<lparr>bricks = [2, 3, 4], width_limit = 430\<rparr>, \<lparr>bricks = [0, 1], width_limit = 430\<rparr>]"
  "get_current_wall_subset hang_s3
     = [\<lparr>bricks = [2, 3, 4], width_limit = 430\<rparr>, \<lparr>bricks = [0, 1], width_limit = 430\<rparr>]"
  "\<not> list_all (placed (heap hang_s2)) (bricks \<lparr>bricks = [2, 3, 4], width_limit = 430\<rparr>)"
  "\<not> list_all (placed (heap hang_s3)) (bricks \<lparr>bricks = [2, 3, 4], width_limit = 430\<rparr>)"
  "stride_index (heap (tag hang_lcs 0) 0) = 0"
  "stride_index (heap (tag hang_s1 2) 2) = 0"
  by code_simp+

lemma hang_slides:
  "(case step_horizontally cfg_mm hang_s2 \<lparr>bricks = [2, 3, 4], width_limit = 430\<rparr> of
      Inl e \<Rightarrow> False
    | Inr (m, s') \<Rightarrow> m \<and> current_stride_x_min s' = 110 \<and> current_stride s' = 1)"
  "(case step_horizontally cfg_mm hang_s3 \<lparr>bricks = [2, 3, 4], width_limit = 430\<rparr> of
      Inl e \<Rightarrow> False
    | Inr (m, s') \<Rightarrow> m \<and> current_stride_x_min s' = 110 \<and> current_stride s' = 1)"
  by code_simp+

lemma hang_step2:
  "step_horizontally cfg_mm hang_s2 \<lparr>bricks = [2, 3, 4], width_limit = 430\<rparr> = Inr (True, hang_s3)"
proof -
  from hang_slides(1) obtain s' where
    e: "step_horizontally cfg_mm hang_s2 \<lparr>bricks = [2, 3, 4], width_limit = 430\<rparr> = Inr (True, s')"
    and v: "current_stride_x_min s' = 110" "current_stride s' = 1"
    by (auto split: sum.splits)
  from step_horizontally_shape [OF e] v have "s' = hang_s3" by (simp add: hang_s3_def)
  with e show ?thesis by simp
qed

lemma hang_step3:
  "step_horizontally cfg_mm hang_s3 \<lparr>bricks = [2, 3, 4], width_limit = 430\<rparr> = Inr (True, hang_s3)"
proof -
  from hang_slides(2) obtain s' where
    e: "step_horizontally cfg_mm hang_s3 \<lparr>bricks = [2, 3, 4], width_limit = 430\<rparr> = Inr (True, s')"
    and v: "current_stride_x_min s' = 110" "current_stride s' = 1"
    by (auto split: sum.splits)
  from step_horizontally_shape [OF e] v have "s' = hang_s3" by (simp add: hang_s3_def)
  with e show ?thesis by simp
qed

lemma hang_next_brick_s3: "next_brick_lcs cfg_mm hang_s3 = None"
  using hang_sections(4) hang_facts(4) hang_facts(6) _ hang_step3
  by (rule next_brick_lcs_stuck) (rule hang_facts(8))

lemma hang_next_brick_s2: "next_brick_lcs cfg_mm hang_s2 = None"
proof -
  have "next_brick_lcs cfg_mm hang_s2 = next_brick_lcs cfg_mm hang_s3"
    using hang_sections(3) hang_facts(3) hang_facts(5) _ hang_step2
    by (rule next_brick_lcs_slide) (rule hang_facts(7))
  then show ?thesis by (simp add: hang_next_brick_s3)
qed

section \<open>The baseline scheduler completes the wall\<close>

text \<open>
  C1. Take a wall whose courses hold pairwise different brick objects, all
  fresh (no supports yet, not placed), and let \<open>assign_support_relations\<close>
  build the support graph. Then calling \<open>place_next_brick\<close> on the baseline
  scheduler until it returns \<open>False\<close> terminates: one call more than the wall
  has bricks suffices. The calls that returned \<open>True\<close> are as many as the wall
  has bricks, the wall is complete at the end, and every call that returns
  \<open>True\<close> places one brick of the wall that was not placed before; so every
  brick is placed exactly once.
\<close>

theorem baseline_builds_whole_wall:
  assumes "distinct (all_bricks w)"
    and "\<forall>b \<in> set (all_bricks w). supports (h b) = [] \<and> \<not> placed h b"
  shows "(\<exists>s'.
       build_all_bbb (Suc (length (all_bricks w)))
           (BrickByBrick_init w (assign_support_relations h w))
         = Some (length (all_bricks w), s')
       \<and> complete_w (heap s') w \<and> wall s' = w)
    \<and> (\<forall>t t'. place_next_brick_bbb t = (True, t') \<longrightarrow>
          (\<exists>b. \<not> placed (heap t) b \<and> b \<in> set (all_bricks (wall t))
              \<and> heap t' = place (heap t) b))"
proof (rule conjI)
  let ?h = "assign_support_relations h w"
  from assms have "supports_below ?h w" by (intro assign_support_relations_below) auto
  then have inv: "bbb_inv w (BrickByBrick_init w ?h)" by (rule bbb_inv_init)
  have "filter (\<lambda>b. \<not> placed ?h b) (all_bricks w) = all_bricks w"
    using assms(2) by (simp add: assign_support_relations_placed)
  then have "unplaced (heap (BrickByBrick_init w ?h)) w = length (all_bricks w)"
    by (simp add: unplaced_def BrickByBrick_init_def)
  from build_all_bbb_completes [OF inv assms(1) this]
  show "\<exists>s'. build_all_bbb (Suc (length (all_bricks w))) (BrickByBrick_init w ?h)
         = Some (length (all_bricks w), s')
       \<and> complete_w (heap s') w \<and> wall s' = w" .
next
  show "\<forall>t t'. place_next_brick_bbb t = (True, t') \<longrightarrow>
          (\<exists>b. \<not> placed (heap t) b \<and> b \<in> set (all_bricks (wall t))
              \<and> heap t' = place (heap t) b)"
    using place_next_brick_bbb_places by blast
qed

theorem baseline_builds_whole_wall_witness:
  "distinct (all_bricks small_wall)
   \<and> list_all (\<lambda>b. supports (small_store0 b) = [] \<and> \<not> placed small_store0 b)
         (all_bricks small_wall)
   \<and> (case build_all_bbb 5 (BrickByBrick_init small_wall small_store) of
        Some (n, s') \<Rightarrow> n = 4 \<and> complete_w (heap s') small_wall
      | None \<Rightarrow> False)"
proof -
  have d: "distinct (all_bricks small_wall)"
    by (simp add: all_bricks_def small_wall_def)
  have f: "\<forall>b \<in> set (all_bricks small_wall). supports (small_store0 b) = [] \<and> \<not> placed small_store0 b"
    by (simp add: all_bricks_def small_wall_def small_store0_def positioned_def Brick_init_def
        placed_def)
  have l: "length (all_bricks small_wall) = 4"
    by (simp add: all_bricks_def small_wall_def)
  from baseline_builds_whole_wall [OF d f] obtain s' where
    "build_all_bbb 5 (BrickByBrick_init small_wall small_store) = Some (4, s')"
    "complete_w (heap s') small_wall"
    unfolding l small_store_def by auto
  with d f show ?thesis unfolding list_all_iff by simp
qed

section \<open>Dependency soundness\<close>

text \<open>
  C2. For both schedulers, constructed on a wall none of whose bricks is placed,
  and every sequence of returning \<open>next_brick\<close>, \<open>place_next_brick\<close> and
  \<open>complete_stride\<close> calls: in every state reached, every placed brick of the
  wall with \<open>row > 0\<close> has all the bricks of its \<open>supports\<close> list placed. The
  first conjunct is the baseline scheduler (whose \<open>complete_stride\<close> always
  raises), the second the envelope scheduler.
\<close>

theorem dependency_soundness:
  "(list_all (\<lambda>b. \<not> placed h b) (all_bricks w) \<and> bbb_step\<^sup>*\<^sup>* (BrickByBrick_init w h) s
      \<longrightarrow> deps_ok (heap s) (wall s))
   \<and> (list_all (\<lambda>b. \<not> placed h b) (all_bricks w) \<and> LimitedCourseStride_init w h mc env = Inr t0
        \<and> (lcs_step cfg)\<^sup>*\<^sup>* t0 t
      \<longrightarrow> deps_ok (heap t) (wall t))"
proof (intro conjI impI)
  assume a: "list_all (\<lambda>b. \<not> placed h b) (all_bricks w) \<and> bbb_step\<^sup>*\<^sup>* (BrickByBrick_init w h) s"
  then have "deps_ok (heap (BrickByBrick_init w h)) (wall (BrickByBrick_init w h))"
    by (simp add: BrickByBrick_init_def deps_ok_fresh)
  with a bbb_steps_deps_ok show "deps_ok (heap s) (wall s)" by blast
next
  assume a: "list_all (\<lambda>b. \<not> placed h b) (all_bricks w) \<and> LimitedCourseStride_init w h mc env = Inr t0
        \<and> (lcs_step cfg)\<^sup>*\<^sup>* t0 t"
  then have "heap t0 = h" "wall t0 = w"
    by (auto simp: LimitedCourseStride_init_def truediv_def split: if_splits)
  with a have "deps_ok (heap t0) (wall t0)" by (simp add: deps_ok_fresh)
  with a lcs_steps_deps_ok show "deps_ok (heap t) (wall t)" by blast
qed

theorem dependency_soundness_witness:
  "list_all (\<lambda>b. \<not> placed small_store b) (all_bricks small_wall)
   \<and> deps_ok (heap (snd (place_next_brick_bbb (BrickByBrick_init small_wall small_store))))
        (wall (snd (place_next_brick_bbb (BrickByBrick_init small_wall small_store))))
   \<and> LimitedCourseStride_init small_wall small_store 2 (300, 1300) = Inr small_lcs
   \<and> (case complete_stride_lcs cfg_mm small_lcs of
        Some (Inr (n, t)) \<Rightarrow> deps_ok (heap t) (wall t)
      | _ \<Rightarrow> False)"
proof -
  let ?s0 = "BrickByBrick_init small_wall small_store"
  have b: "bbb_step\<^sup>*\<^sup>* ?s0 (snd (place_next_brick_bbb ?s0))"
    by (rule r_into_rtranclp, rule bbb_place [of _ "fst (place_next_brick_bbb ?s0)"]) simp
  from small_stride_returns obtain n t where
    r: "complete_stride_lcs cfg_mm small_lcs = Some (Inr (n, t))"
    by (auto split: option.splits sum.splits)
  then have l: "(lcs_step cfg_mm)\<^sup>*\<^sup>* small_lcs t"
    by (intro r_into_rtranclp lcs_stride)
  from dependency_soundness [of small_store small_wall "snd (place_next_brick_bbb ?s0)"
      2 "(300, 1300)" small_lcs cfg_mm t] small_fresh small_init b l r
  show ?thesis by simp
qed

section \<open>Envelope containment\<close>

text \<open>
  C3. Every brick returned by \<open>next_brick\<close> of the envelope scheduler is
  unplaced, lies fully inside the current horizontal window (both window tests
  hold for the whole brick, so a brick straddling a boundary is not returned),
  is on the ground row or has all its supports placed, and carries the current
  stride as its tag. Hence the brick that \<open>place_next_brick\<close> places lies inside
  the window of the state in which it is placed, tagged with the stride of that
  state; no other brick changes. (\<open>complete_stride\<close> places exactly the bricks
  that its calls of \<open>next_brick\<close> return.)
\<close>

theorem envelope_containment:
  "(next_brick_lcs cfg s = Some (Inr (Some b, s')) \<longrightarrow>
      \<not> placed (heap s') b \<and> in_window s' b
      \<and> (row (heap s' b) = 0 \<or> list_all (placed (heap s')) (supports (heap s' b)))
      \<and> stride_index (heap s' b) = current_stride s')
   \<and> (place_next_brick_lcs cfg s = Some (Inr (True, s'')) \<longrightarrow>
        (\<exists>c. \<not> placed (heap s) c \<and> placed (heap s'') c \<and> in_window s'' c
           \<and> stride_index (heap s'' c) = current_stride s''
           \<and> (\<forall>d. d \<noteq> c \<longrightarrow> heap s'' d = heap s d)))"
proof (rule conjI; rule impI)
  assume "next_brick_lcs cfg s = Some (Inr (Some b, s'))"
  from next_brick_lcs_candidate [OF this]
  show "\<not> placed (heap s') b \<and> in_window s' b
      \<and> (row (heap s' b) = 0 \<or> list_all (placed (heap s')) (supports (heap s' b)))
      \<and> stride_index (heap s' b) = current_stride s'"
    by simp
next
  assume "place_next_brick_lcs cfg s = Some (Inr (True, s''))"
  then show "\<exists>c. \<not> placed (heap s) c \<and> placed (heap s'') c \<and> in_window s'' c
           \<and> stride_index (heap s'' c) = current_stride s''
           \<and> (\<forall>d. d \<noteq> c \<longrightarrow> heap s'' d = heap s d)"
  proof (cases rule: place_next_brick_lcs_cases)
    case none
    then show ?thesis by simp
  next
    case (placed c s1)
    from next_brick_lcs_candidate [OF placed(1)]
    have a: "in_window s1 c" "stride_index (heap s1 c) = current_stride s1"
      "\<not> placed (heap s) c" "\<forall>d. d \<noteq> c \<longrightarrow> heap s1 d = heap s d"
      by simp_all
    have w: "in_window s'' c"
      using a(1) placed(3) by (auto simp: in_window_def place_def split: option.splits)
    have "placed (heap s'') c" using placed(3) by (simp add: placed_place)
    moreover have "stride_index (heap s'' c) = current_stride s''"
      using a(2) placed(3) by (simp add: place_def)
    moreover have "\<forall>d. d \<noteq> c \<longrightarrow> heap s'' d = heap s d"
      using a(4) placed(3) by (simp add: place_def)
    ultimately show ?thesis using a(3) w by blast
  qed
qed

theorem envelope_containment_witness:
  "(case next_brick_lcs cfg_mm small_lcs of
      Some (Inr (Some b, s')) \<Rightarrow>
        \<not> placed (heap s') b \<and> in_window s' b \<and> stride_index (heap s' b) = current_stride s'
    | _ \<Rightarrow> False)
   \<and> (case place_next_brick_lcs cfg_mm small_lcs of
        Some (Inr (ok, s'')) \<Rightarrow>
          ok \<and> (\<exists>c. \<not> placed (heap small_lcs) c \<and> placed (heap s'') c \<and> in_window s'' c)
      | _ \<Rightarrow> False)"
proof -
  from small_next_returns obtain b s' where
    n: "next_brick_lcs cfg_mm small_lcs = Some (Inr (Some b, s'))"
    by (auto split: option.splits sum.splits)
  from small_place_returns obtain s'' where
    p: "place_next_brick_lcs cfg_mm small_lcs = Some (Inr (True, s''))"
    by (auto split: option.splits sum.splits)
  from envelope_containment [of cfg_mm small_lcs b s' s''] n p
  show ?thesis by auto
qed

section \<open>Completing a stride\<close>

text \<open>
  C4. The claim is that \<open>complete_stride\<close> places the bricks of the stride
  observed at the start, returns the number of bricks it placed, and leaves a
  candidate of a later stride unplaced for the next call. The call need not
  return. On the stretcher-bond wall 430 wide and two courses high, with
  sections of two courses and an envelope 300 wide, it places the two bricks
  of the first stride and slides the window to 110; there no brick is a
  candidate (the full brick of the upper course rests on a brick that reaches
  out of the window), and every further slide returns \<open>True\<close> with the window
  where it is, so the loop of \<open>next_brick\<close> goes on for ever: the result of
  \<open>complete_stride\<close> is \<open>None\<close>, the run that never returns.
\<close>

theorem complete_stride_hangs:
  "LimitedCourseStride_init hang_wall hang_store 2 (300, 1300) = Inr hang_lcs
   \<and> complete_stride_lcs cfg_mm hang_lcs = None"
proof -
  have n0: "next_brick_lcs cfg_mm hang_lcs = Some (Inr (Some 0, tag hang_lcs 0))"
    using hang_sections(1) hang_facts(1) by (rule next_brick_lcs_found)
  have n1: "next_brick_lcs cfg_mm hang_s1 = Some (Inr (Some 2, tag hang_s1 2))"
    using hang_sections(2) hang_facts(2) by (rule next_brick_lcs_found)
  have l2: "complete_stride_loop cfg_mm 0 (Suc (Suc 0)) hang_s2 = None"
    by (subst complete_stride_loop.simps) (simp add: hang_next_brick_s2)
  have l1: "complete_stride_loop cfg_mm 0 (Suc 0) hang_s1 = None"
    by (subst complete_stride_loop.simps) (simp add: n1 hang_facts(10) l2 hang_s2_def [symmetric])
  have l0: "complete_stride_loop cfg_mm 0 0 hang_lcs = None"
    by (subst complete_stride_loop.simps) (simp add: n0 hang_facts(9) l1 hang_s1_def [symmetric])
  from l0 hang_init show ?thesis
    by (simp add: complete_stride_lcs_def hang_sections(5))
qed

section \<open>Courses: the width budget\<close>

text \<open>
  C5. The claim is that the occupied width of a course never exceeds
  \<open>width_limit\<close>, \<open>append\<close> refusing a brick that does not fit. The width of
  an empty course is computed as minus one head joint, so the first brick is
  accepted whenever its length is at most \<open>width_limit\<close> plus one joint. Here a
  brick of 210 mm is appended to an empty course of limit 200 mm with a joint of
  10 mm: \<open>append\<close> returns \<open>True\<close> and the course is then 210 mm wide.
\<close>

theorem append_first_brick_exceeds_limit:
  "(case append_c cfg_mm fresh_store (Course_init 200) 0 0 of
      Inl e \<Rightarrow> False
    | Inr (ok, c', h') \<Rightarrow> ok \<and> width_limit c' = 200 \<and> width_c cfg_mm h' c' = 210)"
  by (simp add: append_c_def can_fit_def width_c_def Course_init_def cfg_mm_def
      fresh_store_def Brick_init_def)

section \<open>The vertical step and the platform\<close>

text \<open>
  C6. The claim is that, when the height required by the new section exceeds
  the reachable height, the platform rises by exactly the shortfall (required
  minus reachable height). On the wall of three courses, with sections of one
  course and an envelope 100 high, the first vertical step has a shortfall of
  25 and raises the platform by 62.5; the second has a shortfall of 12.5 and
  raises it by 112.5, to 175, the top of the wall, while the third course
  spans 125 to 175.
\<close>

theorem platform_rises_past_section:
  "LimitedCourseStride_init tower_wall tower_store 1 (800, 100) = Inr tower_lcs
   \<and> (case step_vertically cfg_mm tower_lcs of
        (moved1, s1) \<Rightarrow>
          (case step_vertically cfg_mm s1 of
             (moved2, s2) \<Rightarrow>
               moved1 \<and> moved2
               \<and> required_height cfg_mm s1 - reachable_height tower_lcs = 25
               \<and> current_stride_y_min s1 - current_stride_y_min tower_lcs = 125 / 2
               \<and> required_height cfg_mm s2 - reachable_height s1 = 25 / 2
               \<and> current_stride_y_min s2 - current_stride_y_min s1 = 225 / 2
               \<and> current_stride_y_min s2 = height (wall s2)
               \<and> platform_moves s2 = 2))"
proof -
  have "(case step_vertically cfg_mm tower_lcs of
        (moved1, s1) \<Rightarrow>
          (case step_vertically cfg_mm s1 of
             (moved2, s2) \<Rightarrow>
               moved1 \<and> moved2
               \<and> required_height cfg_mm s1 - reachable_height tower_lcs = 25
               \<and> current_stride_y_min s1 - current_stride_y_min tower_lcs = 125 / 2
               \<and> required_height cfg_mm s2 - reachable_height s1 = 25 / 2
               \<and> current_stride_y_min s2 - current_stride_y_min s1 = 225 / 2
               \<and> current_stride_y_min s2 = height (wall s2)
               \<and> platform_moves s2 = 2))"
    by code_simp
  with tower_init show ?thesis by simp
qed

section \<open>The query is idempotent\<close>

text \<open>
  C7. For both schedulers: when \<open>next_brick\<close> returns a brick, calling it again
  on the resulting state, without placing the brick, returns the same brick and
  leaves the scheduler and the store (so also the tag of the brick, which is
  the current stride) as they are.
\<close>

theorem idempotent_query:
  "(next_brick_bbb s = (Some b, s') \<longrightarrow> next_brick_bbb s' = (Some b, s'))
   \<and> (next_brick_lcs cfg t = Some (Inr (Some c, t')) \<longrightarrow>
        next_brick_lcs cfg t' = Some (Inr (Some c, t'))
        \<and> stride_index (heap t' c) = current_stride t')"
proof (intro conjI impI)
  assume "next_brick_bbb s = (Some b, s')"
  with next_brick_bbb_Some show "next_brick_bbb s' = (Some b, s')" by blast
next
  assume a: "next_brick_lcs cfg t = Some (Inr (Some c, t'))"
  from next_brick_lcs_post [OF a] show "next_brick_lcs cfg t' = Some (Inr (Some c, t'))"
    by (simp add: next_brick_post_def)
  from next_brick_lcs_candidate [OF a] show "stride_index (heap t' c) = current_stride t'"
    by simp
qed

theorem idempotent_query_witness:
  "(case next_brick_bbb (BrickByBrick_init small_wall small_store) of
      (Some b, s') \<Rightarrow> next_brick_bbb s' = (Some b, s')
    | _ \<Rightarrow> False)
   \<and> (case next_brick_lcs cfg_mm small_lcs of
        Some (Inr (Some c, t')) \<Rightarrow>
          next_brick_lcs cfg_mm t' = Some (Inr (Some c, t'))
          \<and> stride_index (heap t' c) = current_stride t'
      | _ \<Rightarrow> False)"
proof -
  from small_bbb_next_returns obtain b s' where
    n: "next_brick_bbb (BrickByBrick_init small_wall small_store) = (Some b, s')"
    by (auto split: option.splits prod.splits)
  from small_next_returns obtain c t' where
    l: "next_brick_lcs cfg_mm small_lcs = Some (Inr (Some c, t'))"
    by (auto split: option.splits sum.splits)
  from idempotent_query [of "BrickByBrick_init small_wall small_store" b s' cfg_mm small_lcs c t'] n l
  show ?thesis by simp
qed

section \<open>Statistics\<close>



section \<open>Construction of the envelope scheduler\<close>

text \<open>
  C9, as claimed: constructing the envelope scheduler with an envelope smaller
  than a brick, with \<open>max_courses \<le> 0\<close> or over a wall without courses reports
  a configuration error. It does not: with all three at once (an envelope of
  0 by 0, \<open>max_courses = -1\<close>, no courses) the constructor returns a scheduler.
\<close>

theorem init_accepts_bad_configuration:
  "\<not> isl (LimitedCourseStride_init empty_wall fresh_store (- 1) (0, 0))"
  by (simp add: LimitedCourseStride_init_def truediv_def)

text \<open>
  C9, amended: the constructor checks nothing. It fails exactly when
  \<open>max_courses\<close> is 0, by the division in the number of sections, and then
  with \<open>ZeroDivisionError\<close>; for every other input it creates the scheduling
  state.
\<close>

theorem init_rejects_only_zero_max_courses:
  "(isl (LimitedCourseStride_init w h mc env) \<longleftrightarrow> mc = 0)
   \<and> LimitedCourseStride_init w h 0 env = Inl ZeroDivisionError"
  by (simp add: LimitedCourseStride_init_def truediv_def)

section \<open>A wall without courses\<close>

text \<open>
  C10. For a wall whose list of courses is empty, \<open>complete\<close> holds, and the
  first call of \<open>next_brick\<close> on a freshly constructed scheduler of either
  kind returns \<open>None\<close> without raising and without changing the state. The
  envelope scheduler is constructed for every \<open>max_courses\<close> other than 0.
\<close>

theorem empty_wall_finished:
  assumes "courses w = []"
  shows "complete_w h w
    \<and> next_brick_bbb (BrickByBrick_init w h) = (None, BrickByBrick_init w h)
    \<and> (mc \<noteq> 0 \<longrightarrow>
         (\<exists>s. LimitedCourseStride_init w h mc env = Inr s
              \<and> next_brick_lcs cfg s = Some (Inr (None, s))))"
  using assms
  by (simp add: complete_w_def BrickByBrick_init_def LimitedCourseStride_init_def truediv_def
      to_double_0
      next_brick_lcs.simps next_brick_bbb.simps)

theorem empty_wall_finished_witness:
  "courses empty_wall = []
   \<and> complete_w fresh_store empty_wall
   \<and> next_brick_bbb (BrickByBrick_init empty_wall fresh_store)
       = (None, BrickByBrick_init empty_wall fresh_store)
   \<and> (\<exists>s. LimitedCourseStride_init empty_wall fresh_store 4 (800, 1300) = Inr s
           \<and> next_brick_lcs cfg_mm s = Some (Inr (None, s)))"
proof -
  have h: "courses empty_wall = []" by (simp add: empty_wall_def)
  show ?thesis
    using h empty_wall_finished [OF h, of fresh_store 4 "(800, 1300)" cfg_mm]
    by (simp add: next_brick_bbb.simps)
qed

end
